theory Spec2Isabelle
  imports Main "HOL-Library.Word"
begin

section \<open>JavaScript strings\<close>

text \<open>
  A JavaScript string is a sequence of UTF-16 code units; \<open>length\<close> counts code units,
  and a regular expression without the \<open>u\<close> flag consumes one code unit per character.
\<close>

type_synonym jschar = "16 word"
type_synonym jsstring = "jschar list"

definition chr :: "char \<Rightarrow> jschar" where
  "chr c = of_char c"

definition js :: "string \<Rightarrow> jsstring" where
  "js s = map chr s"

text \<open>
  ECMAScript WhiteSpace and LineTerminator code points: the set stripped by
  \<open>String.prototype.trim\<close> and matched by the character class escape \<open>\s\<close>.
\<close>

definition isWhiteSpace :: "jschar \<Rightarrow> bool" where
  "isWhiteSpace c =
     (c = 0x0009 \<or> c = 0x000A \<or> c = 0x000B \<or> c = 0x000C \<or> c = 0x000D \<or> c = 0x0020
      \<or> c = 0x00A0 \<or> c = 0x1680 \<or> (0x2000 \<le> c \<and> c \<le> 0x200A)
      \<or> c = 0x2028 \<or> c = 0x2029 \<or> c = 0x202F \<or> c = 0x205F \<or> c = 0x3000 \<or> c = 0xFEFF)"

definition trim :: "jsstring \<Rightarrow> jsstring" where
  "trim s = rev (dropWhile isWhiteSpace (rev (dropWhile isWhiteSpace s)))"

text \<open>JavaScript truthiness of a string: every string but the empty one.\<close>

definition truthy :: "jsstring \<Rightarrow> bool" where
  "truthy s = (s \<noteq> [])"

text \<open>Number-to-string conversion of a non-negative integer, as a template literal does it.\<close>

fun numToString :: "nat \<Rightarrow> jsstring" where
  "numToString n =
     (if n < 10 then [0x30 + of_nat n]
      else numToString (n div 10) @ [0x30 + of_nat (n mod 10)])"

section \<open>Regular expressions\<close>

text \<open>
  The fragment of the regular-expression syntax that the program uses: literal characters,
  negated character classes over literal characters and \<open>\s\<close>, concatenation and
  \<open>+\<close>. Alternation, the empty expression and \<open>*\<close> complete it for derivatives.
\<close>

datatype classItem = ClassChar jschar | ClassSpace

datatype regex =
    Nothing
  | Empty
  | Lit jschar
  | NotIn "classItem list"
  | Cat regex regex
  | Alt regex regex
  | Star regex
  | Plus regex

fun inItem :: "classItem \<Rightarrow> jschar \<Rightarrow> bool" where
  "inItem (ClassChar d) c = (c = d)"
| "inItem ClassSpace c = isWhiteSpace c"

definition inClass :: "classItem list \<Rightarrow> jschar \<Rightarrow> bool" where
  "inClass items c = list_ex (\<lambda>i. inItem i c) items"

fun nullable :: "regex \<Rightarrow> bool" where
  "nullable Nothing = False"
| "nullable Empty = True"
| "nullable (Lit d) = False"
| "nullable (NotIn items) = False"
| "nullable (Cat r s) = (nullable r \<and> nullable s)"
| "nullable (Alt r s) = (nullable r \<or> nullable s)"
| "nullable (Star r) = True"
| "nullable (Plus r) = nullable r"

fun deriv :: "jschar \<Rightarrow> regex \<Rightarrow> regex" where
  "deriv c Nothing = Nothing"
| "deriv c Empty = Nothing"
| "deriv c (Lit d) = (if c = d then Empty else Nothing)"
| "deriv c (NotIn items) = (if inClass items c then Nothing else Empty)"
| "deriv c (Cat r s) =
     (if nullable r then Alt (Cat (deriv c r) s) (deriv c s) else Cat (deriv c r) s)"
| "deriv c (Alt r s) = Alt (deriv c r) (deriv c s)"
| "deriv c (Star r) = Cat (deriv c r) (Star r)"
| "deriv c (Plus r) = Cat (deriv c r) (Star r)"

text \<open>
  \<open>RegExp.prototype.test\<close> for a pattern anchored by \<open>^\<close> and \<open>$\<close> (no flags): the
  whole input has to match.
\<close>

definition regexTest :: "regex \<Rightarrow> jsstring \<Rightarrow> bool" where
  "regexTest r s = nullable (foldl (\<lambda>q c. deriv c q) r s)"

text \<open>The meaning of a regular expression: the set of strings it matches.\<close>

definition conc :: "jsstring set \<Rightarrow> jsstring set \<Rightarrow> jsstring set" where
  "conc A B = {u @ v | u v. u \<in> A \<and> v \<in> B}"

inductive_set star :: "jsstring set \<Rightarrow> jsstring set" for A :: "jsstring set" where
  star_empty: "[] \<in> star A"
| star_step: "u \<in> A \<Longrightarrow> v \<in> star A \<Longrightarrow> u @ v \<in> star A"

fun lang :: "regex \<Rightarrow> jsstring set" where
  "lang Nothing = {}"
| "lang Empty = {[]}"
| "lang (Lit d) = {[d]}"
| "lang (NotIn items) = {[c] | c. \<not> inClass items c}"
| "lang (Cat r s) = conc (lang r) (lang s)"
| "lang (Alt r s) = lang r \<union> lang s"
| "lang (Star r) = star (lang r)"
| "lang (Plus r) = conc (lang r) (star (lang r))"

section \<open>The email format check\<close>

text \<open>The pattern \<open>/^[^\s@]+@[^\s@]+\.[^\s@]+$/\<close>.\<close>

definition emailRegex :: regex where
  "emailRegex =
     Cat (Plus (NotIn [ClassSpace, ClassChar (chr CHR ''@'')]))
       (Cat (Lit (chr CHR ''@''))
         (Cat (Plus (NotIn [ClassSpace, ClassChar (chr CHR ''@'')]))
           (Cat (Lit (chr CHR ''.''))
             (Plus (NotIn [ClassSpace, ClassChar (chr CHR ''@'')])))))"

definition validateEmail :: "jsstring \<Rightarrow> bool" where
  "validateEmail email = regexTest emailRegex email"

text \<open>
  The shape of an accepted address in the words of the specification: a non-empty run of
  characters that are neither white space nor \<open>@\<close>, then \<open>@\<close>, then such a run, then a
  dot, then such a run.
\<close>

definition plainChar :: "jschar \<Rightarrow> bool" where
  "plainChar c = (\<not> isWhiteSpace c \<and> c \<noteq> chr CHR ''@'')"

definition plainRun :: "jsstring \<Rightarrow> bool" where
  "plainRun w = (w \<noteq> [] \<and> list_all plainChar w)"

definition emailShape :: "jsstring \<Rightarrow> bool" where
  "emailShape s =
     (\<exists>a b c. s = a @ [chr CHR ''@''] @ b @ [chr CHR ''.''] @ c
        \<and> plainRun a \<and> plainRun b \<and> plainRun c)"

section \<open>Validation rules\<close>

text \<open>
  The \<open>rules\<close> object of a field. A property that a rule object does not define reads
  as \<open>undefined\<close>: \<open>False\<close> for the two flags, \<open>None\<close> for the others.
\<close>

record validationRules =
  required :: bool
  minLength :: "nat option"
  email :: bool
  requiredMessage :: "jsstring option"
  minLengthMessage :: "jsstring option"
  emailMessage :: "jsstring option"

text \<open>\<open>a || b\<close> on a possibly undefined string \<open>a\<close>.\<close>

definition orElse :: "jsstring option \<Rightarrow> jsstring \<Rightarrow> jsstring" where
  "orElse a b = (case a of None \<Rightarrow> b | Some m \<Rightarrow> if truthy m then m else b)"

text \<open>
  The first half of \<open>validateField\<close>: the \<open>if / else if\<close> chain that computes the local
  variable \<open>errorMessage\<close> from the rules and the trimmed value.
\<close>

definition minLengthFails :: "validationRules \<Rightarrow> jsstring \<Rightarrow> bool" where
  "minLengthFails r v = (case minLength r of None \<Rightarrow> False | Some n \<Rightarrow> n \<noteq> 0 \<and> length v < n)"

definition minLengthDefault :: "validationRules \<Rightarrow> jsstring" where
  "minLengthDefault r =
     js ''Minimum '' @ (case minLength r of None \<Rightarrow> js ''undefined'' | Some n \<Rightarrow> numToString n)
       @ js '' characters required''"

definition errorMessage :: "validationRules \<Rightarrow> jsstring \<Rightarrow> jsstring" where
  "errorMessage r v =
     (if required r \<and> \<not> truthy v then
        orElse (requiredMessage r) (js ''This field is required'')
      else if minLengthFails r v then
        orElse (minLengthMessage r) (minLengthDefault r)
      else if email r \<and> \<not> validateEmail v then
        orElse (emailMessage r) (js ''Please enter a valid email address'')
      else [])"

section \<open>The document\<close>

text \<open>
  The elements of the document in document order; an element reference is its position.
  Of an element the model keeps what the program reads or writes: the \<open>id\<close>, the parent,
  the \<open>value\<close> of a form control, the \<open>aria-invalid\<close> attribute (\<open>None\<close> when absent),
  the class list, the text content, the inline \<open>display\<close> style, and whether the
  element can take the focus when it is rendered (a control that is not disabled, an
  element with a \<open>tabindex\<close>).
\<close>

record element =
  el_id :: "jsstring option"
  parent :: "nat option"
  el_value :: jsstring
  ariaInvalid :: "jsstring option"
  classList :: "jsstring set"
  textContent :: jsstring
  styleDisplay :: jsstring
  el_focusable :: bool

text \<open>A field with its error element and rules: one entry of \<open>fieldValidations\<close>.\<close>

record binding =
  field :: "nat option"
  error :: "nat option"
  rules :: validationRules

text \<open>
  The constants that the closure of \<open>initFormValidation\<close> captures. A lookup that finds
  no element yields \<open>null\<close>, here \<open>None\<close>.
\<close>

record env =
  form :: nat
  emailField :: "nat option"
  nameField :: "nat option"
  roleField :: "nat option"
  experienceField :: "nat option"
  goalField :: "nat option"
  successMessage :: "nat option"
  emailError :: "nat option"
  nameError :: "nat option"
  roleError :: "nat option"
  experienceError :: "nat option"
  goalError :: "nat option"

datatype eventType = Blur | Input | Submit

text \<open>The three kinds of listener the program registers, each with what it captures.\<close>

datatype handler = OnBlur binding | OnInput binding | OnSubmit env

datatype logentry =
    Warn jsstring
  | Log jsstring
  | LogObject jsstring "(jsstring \<times> jsstring) list"

datatype jserror = TypeError

record page =
  nodes :: "element list"
  listeners :: "(nat \<times> eventType \<times> handler) list"
  activeElement :: "nat option"
  scrolledIntoView :: "nat list"
  console :: "logentry list"
  defaultPrevented :: bool

subsection \<open>DOM operations\<close>

definition getElementById :: "page \<Rightarrow> jsstring \<Rightarrow> nat option" where
  "getElementById s i = find (\<lambda>h. el_id (nodes s ! h) = Some i) [0..<length (nodes s)]"

definition updateElement :: "nat \<Rightarrow> (element \<Rightarrow> element) \<Rightarrow> page \<Rightarrow> page" where
  "updateElement h f s = s\<lparr>nodes := (nodes s)[h := f (nodes s ! h)]\<rparr>"

definition setAriaInvalid :: "nat \<Rightarrow> jsstring \<Rightarrow> page \<Rightarrow> page" where
  "setAriaInvalid h v = updateElement h (\<lambda>e. e\<lparr>ariaInvalid := Some v\<rparr>)"

definition classListAdd :: "nat \<Rightarrow> jsstring \<Rightarrow> page \<Rightarrow> page" where
  "classListAdd h c = updateElement h (\<lambda>e. e\<lparr>classList := insert c (classList e)\<rparr>)"

definition classListRemove :: "nat \<Rightarrow> jsstring \<Rightarrow> page \<Rightarrow> page" where
  "classListRemove h c = updateElement h (\<lambda>e. e\<lparr>classList := classList e - {c}\<rparr>)"

definition setTextContent :: "nat \<Rightarrow> jsstring \<Rightarrow> page \<Rightarrow> page" where
  "setTextContent h t = updateElement h (\<lambda>e. e\<lparr>textContent := t\<rparr>)"

definition setStyleDisplay :: "nat \<Rightarrow> jsstring \<Rightarrow> page \<Rightarrow> page" where
  "setStyleDisplay h d = updateElement h (\<lambda>e. e\<lparr>styleDisplay := d\<rparr>)"

text \<open>
  \<open>focus()\<close> moves the focus to an element that can take it and is rendered, and does
  nothing on any other element. An element is rendered when neither it nor one of its
  ancestors has the inline style \<open>display: none\<close>; \<open>shown es k h\<close> checks \<open>h\<close> and at
  most \<open>k\<close> ancestors. Style sheets are not part of the model. The blur event that a
  change of focus fires at the element left is not part of it either: the blur listener of
  a field validates the field, which \<open>validateForm\<close> has just done.
\<close>

fun shown :: "element list \<Rightarrow> nat \<Rightarrow> nat \<Rightarrow> bool" where
  "shown es 0 h = (h < length es \<and> styleDisplay (es ! h) \<noteq> js ''none'')"
| "shown es (Suc k) h =
     (h < length es \<and> styleDisplay (es ! h) \<noteq> js ''none''
      \<and> (case parent (es ! h) of None \<Rightarrow> True | Some p \<Rightarrow> shown es k p))"

definition focusable :: "page \<Rightarrow> nat \<Rightarrow> bool" where
  "focusable s h =
     (h < length (nodes s) \<and> el_focusable (nodes s ! h)
      \<and> shown (nodes s) (length (nodes s)) h)"

definition focus :: "nat \<Rightarrow> page \<Rightarrow> page" where
  "focus h s = (if focusable s h then s\<lparr>activeElement := Some h\<rparr> else s)"

definition scrollIntoView :: "nat \<Rightarrow> page \<Rightarrow> page" where
  "scrollIntoView h s = s\<lparr>scrolledIntoView := scrolledIntoView s @ [h]\<rparr>"

definition addEventListener :: "nat \<Rightarrow> eventType \<Rightarrow> handler \<Rightarrow> page \<Rightarrow> page" where
  "addEventListener h ty l s = s\<lparr>listeners := listeners s @ [(h, ty, l)]\<rparr>"

definition consoleWrite :: "logentry \<Rightarrow> page \<Rightarrow> page" where
  "consoleWrite l s = s\<lparr>console := console s @ [l]\<rparr>"

text \<open>
  Descendants: \<open>hasAncestor es k a h\<close> follows at most \<open>k\<close> parent links upwards from
  \<open>h\<close>, looking for \<open>a\<close>. No chain of parents is longer than the document.
\<close>

fun hasAncestor :: "element list \<Rightarrow> nat \<Rightarrow> nat \<Rightarrow> nat \<Rightarrow> bool" where
  "hasAncestor es 0 a h = False"
| "hasAncestor es (Suc k) a h =
     (h < length es \<and>
      (case parent (es ! h) of None \<Rightarrow> False | Some p \<Rightarrow> p = a \<or> hasAncestor es k a p))"

definition descendants :: "page \<Rightarrow> nat \<Rightarrow> nat list" where
  "descendants s a = filter (hasAncestor (nodes s) (length (nodes s)) a) [0..<length (nodes s)]"

text \<open>The two kinds of selector in the program: \<open>.name\<close> and \<open>[aria-invalid="v"]\<close>.\<close>

datatype selector = HasClass jsstring | AriaInvalidIs jsstring

fun selects :: "selector \<Rightarrow> element \<Rightarrow> bool" where
  "selects (HasClass c) e = (c \<in> classList e)"
| "selects (AriaInvalidIs v) e = (ariaInvalid e = Some v)"

definition querySelectorAll :: "page \<Rightarrow> nat \<Rightarrow> selector \<Rightarrow> nat list" where
  "querySelectorAll s root sel = filter (\<lambda>h. selects sel (nodes s ! h)) (descendants s root)"

definition querySelector :: "page \<Rightarrow> nat \<Rightarrow> selector \<Rightarrow> nat option" where
  "querySelector s root sel = (case querySelectorAll s root sel of [] \<Rightarrow> None | h # _ \<Rightarrow> Some h)"

section \<open>The waitlist form\<close>

subsection \<open>validateField\<close>

text \<open>
  Reading a property of \<open>null\<close> throws a \<open>TypeError\<close>; what was written to the document
  before the throw stays written, so a result carries the page with it.
\<close>

definition validateField ::
  "nat option \<Rightarrow> nat option \<Rightarrow> validationRules \<Rightarrow> page \<Rightarrow> (jserror + bool) \<times> page" where
  "validateField fld errorElement validationRules s =
     (case fld of
        None \<Rightarrow> (Inl TypeError, s)
      | Some f \<Rightarrow>
          let v = trim (el_value (nodes s ! f));
              msg = errorMessage validationRules v
          in if truthy msg then
               let s1 = setAriaInvalid f (js ''true'') s;
                   s2 = classListAdd f (js ''form__input--error'') s1
               in (case errorElement of
                     None \<Rightarrow> (Inl TypeError, s2)
                   | Some e \<Rightarrow> (Inr False, setTextContent e msg s2))
             else
               let s1 = setAriaInvalid f (js ''false'') s;
                   s2 = classListRemove f (js ''form__input--error'') s1
               in (case errorElement of
                     None \<Rightarrow> (Inl TypeError, s2)
                   | Some e \<Rightarrow> (Inr True, setTextContent e [] s2)))"

subsection \<open>fieldValidations\<close>

definition emailRules :: validationRules where
  "emailRules = \<lparr>required = True, minLength = None, email = True,
     requiredMessage = Some (js ''Email address is required''),
     minLengthMessage = None,
     emailMessage = Some (js ''Please enter a valid email address'')\<rparr>"

definition nameRules :: validationRules where
  "nameRules = \<lparr>required = True, minLength = Some 2, email = False,
     requiredMessage = Some (js ''Full name is required''),
     minLengthMessage = Some (js ''Name must be at least 2 characters''),
     emailMessage = None\<rparr>"

definition roleRules :: validationRules where
  "roleRules = \<lparr>required = True, minLength = None, email = False,
     requiredMessage = Some (js ''Current role is required''),
     minLengthMessage = None, emailMessage = None\<rparr>"

definition experienceRules :: validationRules where
  "experienceRules = \<lparr>required = True, minLength = None, email = False,
     requiredMessage = Some (js ''Please select your years of experience''),
     minLengthMessage = None, emailMessage = None\<rparr>"

definition goalRules :: validationRules where
  "goalRules = \<lparr>required = True, minLength = None, email = False,
     requiredMessage = Some (js ''Please select your primary goal''),
     minLengthMessage = None, emailMessage = None\<rparr>"

text \<open>\<open>Object.values(fieldValidations)\<close>: the entries in the order of their keys.\<close>

definition fieldValidations :: "env \<Rightarrow> binding list" where
  "fieldValidations E =
     [\<lparr>field = emailField E, error = emailError E, rules = emailRules\<rparr>,
      \<lparr>field = nameField E, error = nameError E, rules = nameRules\<rparr>,
      \<lparr>field = roleField E, error = roleError E, rules = roleRules\<rparr>,
      \<lparr>field = experienceField E, error = experienceError E, rules = experienceRules\<rparr>,
      \<lparr>field = goalField E, error = goalError E, rules = goalRules\<rparr>]"

subsection \<open>Real-time validation\<close>

definition blurListener :: "binding \<Rightarrow> page \<Rightarrow> (jserror + unit) \<times> page" where
  "blurListener b s =
     (case validateField (field b) (error b) (rules b) s of
        (Inl e, s') \<Rightarrow> (Inl e, s')
      | (Inr _, s') \<Rightarrow> (Inr (), s'))"

definition inputListener :: "binding \<Rightarrow> page \<Rightarrow> (jserror + unit) \<times> page" where
  "inputListener b s =
     (case field b of
        None \<Rightarrow> (Inl TypeError, s)
      | Some f \<Rightarrow>
          if ariaInvalid (nodes s ! f) = Some (js ''true'') then
            (case validateField (field b) (error b) (rules b) s of
               (Inl e, s') \<Rightarrow> (Inl e, s')
             | (Inr _, s') \<Rightarrow> (Inr (), s'))
          else (Inr (), s))"

text \<open>The \<open>forEach\<close> of \<open>setupRealTimeValidation\<close>: a missing field stops it with a throw.\<close>

fun setupRealTimeValidation :: "binding list \<Rightarrow> page \<Rightarrow> (jserror + unit) \<times> page" where
  "setupRealTimeValidation [] s = (Inr (), s)"
| "setupRealTimeValidation (b # bs) s =
     (case field b of
        None \<Rightarrow> (Inl TypeError, s)
      | Some f \<Rightarrow>
          setupRealTimeValidation bs
            (addEventListener f Input (OnInput b) (addEventListener f Blur (OnBlur b) s)))"

subsection \<open>validateForm\<close>

text \<open>The \<open>forEach\<close> of \<open>validateForm\<close>, with the local variable \<open>isValid\<close>.\<close>

fun validateFields :: "binding list \<Rightarrow> bool \<Rightarrow> page \<Rightarrow> (jserror + bool) \<times> page" where
  "validateFields [] isValid s = (Inr isValid, s)"
| "validateFields (b # bs) isValid s =
     (case validateField (field b) (error b) (rules b) s of
        (Inl e, s') \<Rightarrow> (Inl e, s')
      | (Inr fieldValid, s') \<Rightarrow>
          validateFields bs (if \<not> fieldValid then False else isValid) s')"

definition validateForm :: "env \<Rightarrow> page \<Rightarrow> (jserror + bool) \<times> page" where
  "validateForm E s = validateFields (fieldValidations E) True s"

subsection \<open>Submission\<close>

definition showSuccessMessage :: "env \<Rightarrow> page \<Rightarrow> (jserror + unit) \<times> page" where
  "showSuccessMessage E s =
     (let s1 = fold (\<lambda>h. setStyleDisplay h (js ''none''))
                 (querySelectorAll s (form E) (HasClass (js ''form__field''))) s
      in case querySelector s1 (form E) (HasClass (js ''form__submit'')) of
           None \<Rightarrow> (Inl TypeError, s1)
         | Some b \<Rightarrow>
             let s2 = setStyleDisplay b (js ''none'') s1
             in (case successMessage E of
                   None \<Rightarrow> (Inl TypeError, s2)
                 | Some m \<Rightarrow>
                     (Inr (), scrollIntoView m (classListAdd m (js ''visible'') s2))))"

definition fieldValue :: "page \<Rightarrow> nat option \<Rightarrow> jserror + jsstring" where
  "fieldValue s r = (case r of None \<Rightarrow> Inl TypeError | Some h \<Rightarrow> Inr (el_value (nodes s ! h)))"

definition formData :: "env \<Rightarrow> page \<Rightarrow> jserror + (jsstring \<times> jsstring) list" where
  "formData E s =
     (case fieldValue s (emailField E) of Inl x \<Rightarrow> Inl x | Inr em \<Rightarrow>
      case fieldValue s (nameField E) of Inl x \<Rightarrow> Inl x | Inr nm \<Rightarrow>
      case fieldValue s (roleField E) of Inl x \<Rightarrow> Inl x | Inr rl \<Rightarrow>
      case fieldValue s (experienceField E) of Inl x \<Rightarrow> Inl x | Inr ex \<Rightarrow>
      case fieldValue s (goalField E) of Inl x \<Rightarrow> Inl x | Inr gl \<Rightarrow>
        Inr [(js ''email'', trim em), (js ''name'', trim nm), (js ''role'', trim rl),
             (js ''experience'', ex), (js ''goal'', gl)])"

definition handleFormSubmit :: "env \<Rightarrow> page \<Rightarrow> (jserror + unit) \<times> page" where
  "handleFormSubmit E s =
     (case validateForm E (s\<lparr>defaultPrevented := True\<rparr>) of
        (Inl x, s1) \<Rightarrow> (Inl x, s1)
      | (Inr isValid, s1) \<Rightarrow>
          if \<not> isValid then
            (case querySelector s1 (form E) (AriaInvalidIs (js ''true'')) of
               None \<Rightarrow> (Inr (), s1)
             | Some firstInvalidField \<Rightarrow> (Inr (), focus firstInvalidField s1))
          else
            (case showSuccessMessage E s1 of
               (Inl x, s2) \<Rightarrow> (Inl x, s2)
             | (Inr _, s2) \<Rightarrow>
                 (case formData E s2 of
                    Inl x \<Rightarrow> (Inl x, s2)
                  | Inr d \<Rightarrow>
                      (Inr (), consoleWrite (LogObject (js ''Form submitted successfully:'') d) s2))))"

subsection \<open>initFormValidation\<close>

definition bindEnv :: "page \<Rightarrow> nat \<Rightarrow> env" where
  "bindEnv s f =
     \<lparr>form = f,
      emailField = getElementById s (js ''email''),
      nameField = getElementById s (js ''name''),
      roleField = getElementById s (js ''role''),
      experienceField = getElementById s (js ''experience''),
      goalField = getElementById s (js ''goal''),
      successMessage = getElementById s (js ''form-success''),
      emailError = getElementById s (js ''email-error''),
      nameError = getElementById s (js ''name-error''),
      roleError = getElementById s (js ''role-error''),
      experienceError = getElementById s (js ''experience-error''),
      goalError = getElementById s (js ''goal-error'')\<rparr>"

definition initFormValidation :: "page \<Rightarrow> (jserror + unit) \<times> page" where
  "initFormValidation s =
     (case getElementById s (js ''waitlist-form'') of
        None \<Rightarrow> (Inr (), consoleWrite (Warn (js ''Waitlist form not found'')) s)
      | Some f \<Rightarrow>
          let E = bindEnv s f
          in (case setupRealTimeValidation (fieldValidations E) s of
                (Inl x, s1) \<Rightarrow> (Inl x, s1)
              | (Inr _, s1) \<Rightarrow>
                  (Inr (), consoleWrite (Log (js ''Form validation initialized''))
                             (addEventListener f Submit (OnSubmit E) s1))))"

subsection \<open>Events\<close>

fun runListener :: "handler \<Rightarrow> page \<Rightarrow> (jserror + unit) \<times> page" where
  "runListener (OnBlur b) s = blurListener b s"
| "runListener (OnInput b) s = inputListener b s"
| "runListener (OnSubmit E) s = handleFormSubmit E s"

text \<open>
  Dispatch of a fresh event at a target: the listeners registered for the target and the
  type run in the order of registration. An exception that a listener throws is reported
  and does not stop the dispatch; what the listener wrote before stays.
\<close>

definition dispatchEvent :: "nat \<Rightarrow> eventType \<Rightarrow> page \<Rightarrow> page" where
  "dispatchEvent target ty s =
     fold (\<lambda>(t, ty', l) s'. if t = target \<and> ty' = ty then snd (runListener l s') else s')
       (listeners s) (s\<lparr>defaultPrevented := False\<rparr>)"

text \<open>
  What a user can do to the page: leave a control, change the value of a control (which
  fires \<open>input\<close>), submit a form.
\<close>

datatype action = Leave nat | Type nat jsstring | SubmitForm nat

fun act :: "action \<Rightarrow> page \<Rightarrow> page" where
  "act (Leave h) s = dispatchEvent h Blur s"
| "act (Type h v) s = dispatchEvent h Input (updateElement h (\<lambda>e. e\<lparr>el_value := v\<rparr>) s)"
| "act (SubmitForm h) s = dispatchEvent h Submit s"

text \<open>A sequence of user actions, the first of the list first.\<close>

definition run :: "action list \<Rightarrow> page \<Rightarrow> page" where
  "run as s = fold act as s"

section \<open>Notions of the specification\<close>

text \<open>
  The rule kinds in the priority order of the specification, when a rule of a kind fails
  on a trimmed value, and the message configured for it.
\<close>

datatype ruleKind = RequiredCheck | MinimumLength | EmailFormat

definition priorityOrder :: "ruleKind list" where
  "priorityOrder = [RequiredCheck, MinimumLength, EmailFormat]"

fun ruleFails :: "validationRules \<Rightarrow> jsstring \<Rightarrow> ruleKind \<Rightarrow> bool" where
  "ruleFails r v RequiredCheck = (required r \<and> v = [])"
| "ruleFails r v MinimumLength = (case minLength r of None \<Rightarrow> False | Some n \<Rightarrow> length v < n)"
| "ruleFails r v EmailFormat = (email r \<and> \<not> validateEmail v)"

fun configuredMessage :: "validationRules \<Rightarrow> ruleKind \<Rightarrow> jsstring option" where
  "configuredMessage r RequiredCheck = requiredMessage r"
| "configuredMessage r MinimumLength = minLengthMessage r"
| "configuredMessage r EmailFormat = emailMessage r"

text \<open>
  The validation result of the specification, as validity and message: the first failing
  rule in priority order gives an invalid result with its configured message; no failing
  rule gives a valid result with the empty message.
\<close>

definition expectedResult :: "validationRules \<Rightarrow> jsstring \<Rightarrow> bool \<times> jsstring option" where
  "expectedResult r v =
     (case find (ruleFails r v) priorityOrder of
        None \<Rightarrow> (True, Some [])
      | Some k \<Rightarrow> (False, configuredMessage r k))"

text \<open>
  Rules whose applicable checks each have a configured message: a message that is defined
  and not empty.
\<close>

definition hasMessage :: "jsstring option \<Rightarrow> bool" where
  "hasMessage m = (case m of None \<Rightarrow> False | Some x \<Rightarrow> x \<noteq> [])"

definition configured :: "validationRules \<Rightarrow> bool" where
  "configured r =
     ((required r \<longrightarrow> hasMessage (requiredMessage r))
      \<and> (minLength r \<noteq> None \<longrightarrow> hasMessage (minLengthMessage r))
      \<and> (email r \<longrightarrow> hasMessage (emailMessage r)))"

text \<open>Every element that the closure looks up is in the document.\<close>

definition present :: "env \<Rightarrow> bool" where
  "present E =
     (emailField E \<noteq> None \<and> nameField E \<noteq> None \<and> roleField E \<noteq> None
      \<and> experienceField E \<noteq> None \<and> goalField E \<noteq> None \<and> successMessage E \<noteq> None
      \<and> emailError E \<noteq> None \<and> nameError E \<noteq> None \<and> roleError E \<noteq> None
      \<and> experienceError E \<noteq> None \<and> goalError E \<noteq> None)"

text \<open>
  The two phases of the form, read off the document: the form is submitted once the
  success element carries the class \<open>visible\<close>.
\<close>

datatype phase = Editing | Submitted

definition phase :: "page \<Rightarrow> phase" where
  "phase s =
     (case getElementById s (js ''form-success'') of
        None \<Rightarrow> Editing
      | Some m \<Rightarrow> if js ''visible'' \<in> classList (nodes s ! m) then Submitted else Editing)"

text \<open>
  An element is marked invalid when its \<open>aria-invalid\<close> attribute is \<open>true\<close>; it is
  inside the form when the form is among its ancestors. The field elements of the bindings
  in the order of their declaration. A form that holds its fields: every field element is
  inside the form and can be focused, and no other element inside the form is marked
  invalid.
\<close>

definition markedInvalid :: "page \<Rightarrow> nat \<Rightarrow> bool" where
  "markedInvalid s h = (ariaInvalid (nodes s ! h) = Some (js ''true''))"

definition insideForm :: "page \<Rightarrow> nat \<Rightarrow> nat \<Rightarrow> bool" where
  "insideForm s frm h = hasAncestor (nodes s) (length (nodes s)) frm h"

definition fieldHandles :: "env \<Rightarrow> nat list" where
  "fieldHandles E = List.map_filter field (fieldValidations E)"

definition formHoldsFields :: "page \<Rightarrow> nat \<Rightarrow> env \<Rightarrow> bool" where
  "formHoldsFields s frm E =
     (list_all (insideForm s frm) (fieldHandles E)
      \<and> list_all (focusable s) (fieldHandles E)
      \<and> list_all (\<lambda>h. h \<in> set (fieldHandles E))
           (filter (markedInvalid s) (descendants s frm)))"

section \<open>A sample document\<close>

text \<open>
  A form with a container, a control and an error element per field in the order
  email, name, role, experience, goal, then the submit control and the success element.
  The five controls and the submit control can take the focus.
\<close>

definition mkElement :: "string \<Rightarrow> nat option \<Rightarrow> string list \<Rightarrow> element" where
  "mkElement i p cs =
     \<lparr>el_id = (if i = [] then None else Some (js i)), parent = p, el_value = [],
      ariaInvalid = None, classList = set (map js cs), textContent = [], styleDisplay = [],
      el_focusable = False\<rparr>"

definition mkControl :: "string \<Rightarrow> nat option \<Rightarrow> string list \<Rightarrow> element" where
  "mkControl i p cs = (mkElement i p cs)\<lparr>el_focusable := True\<rparr>"

definition sampleNodes :: "element list" where
  "sampleNodes =
     [mkElement ''waitlist-form'' None [''form''],
      mkElement [] (Some 0) [''form__field''],
      mkControl ''email'' (Some 1) [''form__input''],
      mkElement ''email-error'' (Some 1) [''form__error''],
      mkElement [] (Some 0) [''form__field''],
      mkControl ''name'' (Some 4) [''form__input''],
      mkElement ''name-error'' (Some 4) [''form__error''],
      mkElement [] (Some 0) [''form__field''],
      mkControl ''role'' (Some 7) [''form__input''],
      mkElement ''role-error'' (Some 7) [''form__error''],
      mkElement [] (Some 0) [''form__field''],
      mkControl ''experience'' (Some 10) [''form__select''],
      mkElement ''experience-error'' (Some 10) [''form__error''],
      mkElement [] (Some 0) [''form__field''],
      mkControl ''goal'' (Some 13) [''form__select''],
      mkElement ''goal-error'' (Some 13) [''form__error''],
      mkControl [] (Some 0) [''form__submit''],
      mkElement ''form-success'' (Some 0) [''form__success'']]"

definition samplePage :: page where
  "samplePage =
     \<lparr>nodes = sampleNodes, listeners = [], activeElement = None, scrolledIntoView = [],
      console = [], defaultPrevented = False\<rparr>"

text \<open>The sample document with values typed into the five controls.\<close>

definition withValues :: "jsstring list \<Rightarrow> page \<Rightarrow> page" where
  "withValues vs s =
     fold (\<lambda>(h, v). updateElement h (\<lambda>e. e\<lparr>el_value := v\<rparr>)) (zip [2, 5, 8, 11, 14] vs) s"

text \<open>Pages of the sample document with values typed in, and what the closure looks up there.\<close>

definition invalidEmailPage :: page where
  "invalidEmailPage =
     withValues [js ''a@b'', js ''Al'', js ''dev'', js ''1-3'', js ''learn''] samplePage"

definition validPage :: page where
  "validPage =
     withValues [js ''a@b.co'', js ''Al'', js ''dev'', js ''1-3'', js ''learn''] samplePage"

definition sampleEnv :: env where
  "sampleEnv =
     \<lparr>form = 0, emailField = Some 2, nameField = Some 5, roleField = Some 8,
      experienceField = Some 11, goalField = Some 14, successMessage = Some 17,
      emailError = Some 3, nameError = Some 6, roleError = Some 9,
      experienceError = Some 12, goalError = Some 15\<rparr>"

text \<open>Rules with a minimum length and the email format, as no field of the form has them.\<close>

definition lengthAndEmailRules :: validationRules where
  "lengthAndEmailRules = \<lparr>required = True, minLength = Some 8, email = True,
     requiredMessage = Some (js ''Required''),
     minLengthMessage = Some (js ''Too short''),
     emailMessage = Some (js ''Not an email address'')\<rparr>"

text \<open>The sample document without the id of the email control, and without that of its error element.\<close>

definition noEmailPage :: page where
  "noEmailPage = samplePage\<lparr>nodes := sampleNodes[2 := mkControl [] (Some 1) [''form__input'']]\<rparr>"

definition noEmailErrorPage :: page where
  "noEmailErrorPage = samplePage\<lparr>nodes := sampleNodes[3 := mkElement [] (Some 1) [''form__error'']]\<rparr>"

text \<open>A document that lists the name field before the email field.\<close>

definition reorderedNodes :: "element list" where
  "reorderedNodes =
     [mkElement ''waitlist-form'' None [''form''],
      mkControl ''name'' (Some 0) [''form__input''],
      mkElement ''name-error'' (Some 0) [''form__error''],
      mkControl ''email'' (Some 0) [''form__input''],
      mkElement ''email-error'' (Some 0) [''form__error''],
      mkControl ''role'' (Some 0) [''form__input''],
      mkElement ''role-error'' (Some 0) [''form__error''],
      mkControl ''experience'' (Some 0) [''form__select''],
      mkElement ''experience-error'' (Some 0) [''form__error''],
      mkControl ''goal'' (Some 0) [''form__select''],
      mkElement ''goal-error'' (Some 0) [''form__error''],
      mkControl [] (Some 0) [''form__submit''],
      mkElement ''form-success'' (Some 0) [''form__success'']]"

definition reorderedPage :: page where
  "reorderedPage = samplePage\<lparr>nodes := reorderedNodes\<rparr>"

text \<open>The sample document after \<open>initFormValidation\<close> has run on it.\<close>

definition initialised :: page where
  "initialised = snd (initFormValidation samplePage)"

section \<open>Auxiliary notions of the proofs\<close>

text \<open>A binding whose field and error element are elements of the page.\<close>

definition wfBinding :: "page \<Rightarrow> binding \<Rightarrow> bool" where
  "wfBinding s b = (\<exists>f e. field b = Some f \<and> error b = Some e \<and> f < length (nodes s)
      \<and> e < length (nodes s))"

text \<open>The ids of the fields and their error elements, in the order of \<open>fieldValidations\<close>.\<close>

definition fieldIds :: "string list" where
  "fieldIds = [''email'', ''email-error'', ''name'', ''name-error'', ''role'', ''role-error'',
     ''experience'', ''experience-error'', ''goal'', ''goal-error'']"

text \<open>
  What every operation of the program keeps of a page: the number of elements, the
  listeners, the id and the parent of every element, and the class \<open>visible\<close> where it is.
\<close>

definition elementEvolves :: "element \<Rightarrow> element \<Rightarrow> bool" where
  "elementEvolves e e' =
     (el_id e' = el_id e \<and> parent e' = parent e
      \<and> (js ''visible'' \<in> classList e \<longrightarrow> js ''visible'' \<in> classList e'))"

definition evolves :: "page \<Rightarrow> page \<Rightarrow> bool" where
  "evolves s t =
     (length (nodes t) = length (nodes s) \<and> listeners t = listeners s
      \<and> (\<forall>h. elementEvolves (nodes s ! h) (nodes t ! h)))"

section \<open>Correctness of the matcher\<close>

lemma nullable_lang: "nullable r \<longleftrightarrow> [] \<in> lang r"
  by (induction r) (auto simp: conc_def intro: star.intros)

lemma star_cons:
  "c # w \<in> star A \<longleftrightarrow> (\<exists>u v. w = u @ v \<and> c # u \<in> A \<and> v \<in> star A)"
proof
  assume "c # w \<in> star A"
  then show "\<exists>u v. w = u @ v \<and> c # u \<in> A \<and> v \<in> star A"
  proof (induction "c # w" arbitrary: w rule: star.induct)
    case (star_step u v)
    show ?case
    proof (cases u)
      case Nil
      with star_step show ?thesis by simp
    next
      case (Cons d u')
      with star_step.hyps(1,2,4) show ?thesis by auto
    qed
  qed
next
  assume "\<exists>u v. w = u @ v \<and> c # u \<in> A \<and> v \<in> star A"
  then obtain u v where "w = u @ v" "c # u \<in> A" "v \<in> star A" by blast
  then show "c # w \<in> star A"
    using star.star_step [of "c # u" A v] by simp
qed

lemma conc_cons:
  "c # w \<in> conc A B \<longleftrightarrow>
     (\<exists>u v. w = u @ v \<and> c # u \<in> A \<and> v \<in> B) \<or> ([] \<in> A \<and> c # w \<in> B)"
  by (auto simp: conc_def Cons_eq_append_conv)

lemma deriv_lang: "w \<in> lang (deriv c r) \<longleftrightarrow> c # w \<in> lang r"
proof (induction r arbitrary: w)
  case (Cat r s)
  then show ?case
    by (auto simp: conc_cons nullable_lang) (auto simp: conc_def)
next
  case (Star r)
  then show ?case
    by (auto simp: star_cons) (auto simp: conc_def)
next
  case (Plus r)
  then show ?case
    by (auto simp: conc_cons star_cons) (auto simp: conc_def)
qed auto

lemma regexTest_lang: "regexTest r s \<longleftrightarrow> s \<in> lang r"
  unfolding regexTest_def
  by (induction s arbitrary: r) (simp_all add: nullable_lang deriv_lang)

lemma star_singletons: "w \<in> star {[c] | c. P c} \<longleftrightarrow> list_all P w"
proof
  assume "w \<in> star {[c] | c. P c}"
  then show "list_all P w" by (induction rule: star.induct) auto
next
  assume "list_all P w"
  then show "w \<in> star {[c] | c. P c}"
  proof (induction w)
    case Nil
    show ?case by (rule star.star_empty)
  next
    case (Cons x xs)
    then have "[x] \<in> {[c] | c. P c}" and "xs \<in> star {[c] | c. P c}" by auto
    then have "[x] @ xs \<in> star {[c] | c. P c}" by (rule star.star_step)
    then show ?case by simp
  qed
qed

lemma plus_singletons:
  "w \<in> conc {[c] | c. P c} (star {[c] | c. P c}) \<longleftrightarrow> w \<noteq> [] \<and> list_all P w"
proof (cases w)
  case Nil
  then show ?thesis by (auto simp: conc_def)
next
  case (Cons x xs)
  have "x # xs \<in> conc {[c] | c. P c} (star {[c] | c. P c}) \<longleftrightarrow> P x \<and> xs \<in> star {[c] | c. P c}"
    by (auto simp: conc_cons)
  with Cons show ?thesis by (simp add: star_singletons)
qed

lemma notInClass_plainChar:
  "(\<not> inClass [ClassSpace, ClassChar (chr CHR ''@'')] c) = plainChar c"
  by (simp add: inClass_def plainChar_def)

lemma lang_plainRun:
  "w \<in> lang (Plus (NotIn [ClassSpace, ClassChar (chr CHR ''@'')])) \<longleftrightarrow> plainRun w"
  by (simp add: plus_singletons notInClass_plainChar plainRun_def)

lemma conc_iff: "w \<in> conc A B \<longleftrightarrow> (\<exists>u v. w = u @ v \<and> u \<in> A \<and> v \<in> B)"
  by (auto simp: conc_def)

lemma conc_single: "w \<in> conc {[d]} B \<longleftrightarrow> (\<exists>v. w = d # v \<and> v \<in> B)"
  by (auto simp: conc_def)

lemma lang_emailRegex: "s \<in> lang emailRegex \<longleftrightarrow> emailShape s"
proof -
  define R where "R = lang (Plus (NotIn [ClassSpace, ClassChar (chr CHR ''@'')]))"
  have mem: "\<And>w. w \<in> R \<longleftrightarrow> plainRun w"
    unfolding R_def by (rule lang_plainRun)
  have "lang emailRegex = conc R (conc {[chr CHR ''@'']} (conc R (conc {[chr CHR ''.'']} R)))"
    unfolding R_def emailRegex_def by (simp only: lang.simps(3,5))
  then have "s \<in> lang emailRegex \<longleftrightarrow>
      (\<exists>a v. s = a @ v \<and> a \<in> R \<and> (\<exists>v1. v = chr CHR ''@'' # v1 \<and>
         (\<exists>b v2. v1 = b @ v2 \<and> b \<in> R \<and> (\<exists>c. v2 = chr CHR ''.'' # c \<and> c \<in> R))))"
    by (simp only: conc_iff [of _ R] conc_single)
  also have "\<dots> \<longleftrightarrow> (\<exists>a b c. s = a @ [chr CHR ''@''] @ b @ [chr CHR ''.''] @ c
        \<and> a \<in> R \<and> b \<in> R \<and> c \<in> R)" (is "?L \<longleftrightarrow> ?R")
  proof
    assume ?L
    then show ?R by auto
  next
    assume ?R
    then obtain a b c where "s = a @ [chr CHR ''@''] @ b @ [chr CHR ''.''] @ c"
      and "a \<in> R" "b \<in> R" "c \<in> R" by blast
    then have "s = a @ (chr CHR ''@'' # b @ chr CHR ''.'' # c) \<and> a \<in> R \<and>
        (\<exists>v1. chr CHR ''@'' # b @ chr CHR ''.'' # c = chr CHR ''@'' # v1 \<and>
           (\<exists>b' v2. v1 = b' @ v2 \<and> b' \<in> R \<and> (\<exists>c'. v2 = chr CHR ''.'' # c' \<and> c' \<in> R)))"
      by auto
    then show ?L by blast
  qed
  finally show ?thesis
    unfolding emailShape_def mem .
qed

lemma validateEmail_emailShape: "validateEmail s \<longleftrightarrow> emailShape s"
  by (simp add: validateEmail_def regexTest_lang lang_emailRegex)

lemmas email_eval =
  validateEmail_def regexTest_def emailRegex_def js_def chr_def inClass_def isWhiteSpace_def

text \<open>
  C3: the email format check accepts a string exactly when it is a non-empty run of
  characters that are neither white space nor \<open>@\<close>, then \<open>@\<close>, then such a run, then a
  dot, then such a run; it accepts \<open>a@b.co\<close> and rejects \<open>no-at-sign.com\<close> and
  \<open>a@b\<close>.
\<close>

theorem validateEmail_accepts_shape:
  "(validateEmail s \<longleftrightarrow> emailShape s)
   \<and> validateEmail (js ''a@b.co'')
   \<and> \<not> validateEmail (js ''no-at-sign.com'')
   \<and> \<not> validateEmail (js ''a@b'')"
proof -
  have "validateEmail (js ''a@b.co'')" by (simp add: email_eval)
  moreover have "\<not> validateEmail (js ''no-at-sign.com'')" by (simp add: email_eval)
  moreover have "\<not> validateEmail (js ''a@b'')" by (simp add: email_eval)
  ultimately show ?thesis by (simp add: validateEmail_emailShape)
qed

theorem validateEmail_accepts_shape_witness:
  "emailShape (js ''a@b.co'') \<and> \<not> emailShape (js ''a@b'')"
  using validateEmail_accepts_shape [of "js ''a@b.co''"] validateEmail_accepts_shape [of "js ''a@b''"]
  by blast

section \<open>Strings and element updates\<close>

lemma chr_inj: "chr a = chr b \<longleftrightarrow> a = b"
proof -
  have lt: "\<And>c. (of_char c :: nat) < 2 ^ 16"
  proof -
    fix c :: char
    have "(of_char c :: nat) mod 256 = of_char c" by simp
    then have "(of_char c :: nat) < 256" by (metis mod_less_divisor zero_less_numeral)
    also have "(256::nat) < 2 ^ 16" by simp
    finally show "(of_char c :: nat) < 2 ^ 16" .
  qed
  have "chr a = chr b \<longleftrightarrow> (word_of_nat (of_char a) :: 16 word) = word_of_nat (of_char b)"
    by (simp add: chr_def of_nat_of_char)
  also have "\<dots> \<longleftrightarrow> (of_char a :: nat) = of_char b"
  proof -
    have tb: "\<And>c. take_bit 16 (of_char c :: nat) = of_char c"
      by (rule take_bit_nat_eq_self) (rule lt)
    have len: "LENGTH(16) = 16" by simp
    show ?thesis unfolding word_of_nat_eq_iff len tb ..
  qed
  finally show ?thesis by simp
qed

lemma js_inj: "js a = js b \<longleftrightarrow> a = b"
  unfolding js_def by (simp add: inj_map_eq_map inj_on_def chr_inj)

lemma trim_whitespace: "list_all isWhiteSpace v \<Longrightarrow> trim v = []"
  by (auto simp: trim_def list_all_iff dest: set_dropWhileD)

lemma getElementById_Some:
  "getElementById s i = Some h \<Longrightarrow> h < length (nodes s) \<and> el_id (nodes s ! h) = Some i"
  unfolding getElementById_def by (auto simp: find_Some_iff)

lemma nodes_updateElement: "nodes (updateElement h g s) = (nodes s)[h := g (nodes s ! h)]"
  by (simp add: updateElement_def)

lemma rest_updateElement:
  "listeners (updateElement h g s) = listeners s"
  "activeElement (updateElement h g s) = activeElement s"
  "scrolledIntoView (updateElement h g s) = scrolledIntoView s"
  "console (updateElement h g s) = console s"
  "defaultPrevented (updateElement h g s) = defaultPrevented s"
  "length (nodes (updateElement h g s)) = length (nodes s)"
  by (simp_all add: updateElement_def)

lemma nth_updateElement_other:
  "k \<noteq> h \<Longrightarrow> nodes (updateElement h g s) ! k = nodes s ! k"
  by (simp add: updateElement_def)

lemma nth_updateElement_same:
  "h < length (nodes s) \<Longrightarrow> nodes (updateElement h g s) ! h = g (nodes s ! h)"
  by (simp add: updateElement_def)

lemma proj_updateElement:
  "(\<And>e. p (g e) = p e) \<Longrightarrow> p (nodes (updateElement h g s) ! k) = p (nodes s ! k)"
  by (cases "h < length (nodes s)"; cases "k = h")
     (simp_all add: updateElement_def list_update_beyond)

lemma updateElement_idem:
  "(\<And>e. g (g e) = g e) \<Longrightarrow> updateElement h g (updateElement h g s) = updateElement h g s"
  by (cases "h < length (nodes s)") (simp_all add: updateElement_def list_update_beyond)

text \<open>The page after validateField, written as two element updates.\<close>

lemma validateField_Some:
  "validateField (Some f) (Some e) r s =
     (let msg = errorMessage r (trim (el_value (nodes s ! f)))
      in (Inr (msg = []),
          updateElement e (\<lambda>x. x\<lparr>textContent := msg\<rparr>)
            (updateElement f (\<lambda>x. x\<lparr>ariaInvalid := Some (if msg = [] then js ''false'' else js ''true''),
                 classList := (if msg = [] then classList x - {js ''form__input--error''}
                               else insert (js ''form__input--error'') (classList x))\<rparr>) s)))"
  by (cases "f < length (nodes s)")
     (simp_all add: validateField_def Let_def truthy_def setAriaInvalid_def classListAdd_def
        classListRemove_def setTextContent_def updateElement_def list_update_beyond)

lemma getElementById_distinct:
  "getElementById s i = Some h \<Longrightarrow> getElementById s j = Some k \<Longrightarrow> i \<noteq> j \<Longrightarrow> h \<noteq> k"
  by (auto dest!: getElementById_Some)

lemma updateElement_comp:
  "updateElement h g (updateElement h g' s) = updateElement h (\<lambda>e. g (g' e)) s"
  by (cases "h < length (nodes s)") (simp_all add: updateElement_def list_update_beyond)

lemma updateElement_swap:
  "h \<noteq> k \<Longrightarrow> updateElement h g (updateElement k g' s) = updateElement k g' (updateElement h g s)"
  by (simp add: updateElement_def list_update_swap)

lemma validateField_None: "validateField None err r s = (Inl TypeError, s)"
  by (simp add: validateField_def)

lemma validateField_Some_None:
  "validateField (Some f) None r s =
     (let msg = errorMessage r (trim (el_value (nodes s ! f)))
      in (Inl TypeError,
            (updateElement f (\<lambda>x. x\<lparr>ariaInvalid := Some (if msg = [] then js ''false'' else js ''true''),
                 classList := (if msg = [] then classList x - {js ''form__input--error''}
                               else insert (js ''form__input--error'') (classList x))\<rparr>) s)))"
  by (cases "f < length (nodes s)")
     (simp_all add: validateField_def Let_def truthy_def setAriaInvalid_def classListAdd_def
        classListRemove_def setTextContent_def updateElement_def list_update_beyond)

lemma validateField_value:
  "el_value (nodes (snd (validateField fld err r s)) ! h) = el_value (nodes s ! h)"
  by (cases fld; cases err)
     (simp_all add: validateField_None validateField_Some validateField_Some_None Let_def
        proj_updateElement [where p = el_value])


section \<open>validateField\<close>

lemma js_nonempty [simp]: "js (c # cs) \<noteq> []"
  by (simp add: js_def)

lemmas rules_defs = emailRules_def nameRules_def roleRules_def experienceRules_def goalRules_def

lemma expectedResult_configured:
  assumes "configured r"
  shows "expectedResult r v = (errorMessage r v = [], Some (errorMessage r v))"
proof -
  have msg: "orElse m d = x \<and> x \<noteq> []" if "m = Some x" "hasMessage m" for m d x
    using that by (simp add: orElse_def truthy_def hasMessage_def)
  have fails: "minLengthFails r v = ruleFails r v MinimumLength"
    by (auto simp: minLengthFails_def split: option.splits)
  show ?thesis
  proof (cases "required r \<and> v = []")
    case True
    with assms obtain x where x: "requiredMessage r = Some x" "hasMessage (requiredMessage r)"
      by (auto simp: configured_def hasMessage_def split: option.splits)
    from msg [OF x] x(1) True show ?thesis
      by (auto simp: expectedResult_def errorMessage_def priorityOrder_def truthy_def)
  next
    case notreq: False
    show ?thesis
    proof (cases "ruleFails r v MinimumLength")
      case True
      then have "minLength r \<noteq> None" by (auto split: option.splits)
      with assms obtain x where x: "minLengthMessage r = Some x" "hasMessage (minLengthMessage r)"
        by (auto simp: configured_def hasMessage_def split: option.splits)
      from msg [OF x] x(1) True notreq fails show ?thesis
        by (auto simp: expectedResult_def errorMessage_def priorityOrder_def truthy_def)
    next
      case notmin: False
      show ?thesis
      proof (cases "email r \<and> \<not> validateEmail v")
        case True
        with assms obtain x where x: "emailMessage r = Some x" "hasMessage (emailMessage r)"
          by (auto simp: configured_def hasMessage_def split: option.splits)
        from msg [OF x] x(1) True notreq notmin fails show ?thesis
          by (auto simp: expectedResult_def errorMessage_def priorityOrder_def truthy_def)
      next
        case False
        with notreq notmin fails show ?thesis
          by (auto simp: expectedResult_def errorMessage_def priorityOrder_def truthy_def)
      qed
    qed
  qed
qed

lemma fieldValidations_rules:
  "b \<in> set (fieldValidations E) \<Longrightarrow>
   rules b \<in> {emailRules, nameRules, roleRules, experienceRules, goalRules}"
  by (auto simp: fieldValidations_def)

lemma configured_bindings:
  "b \<in> set (fieldValidations E) \<Longrightarrow> configured (rules b)"
  using fieldValidations_rules [of b E]
  by (auto simp: configured_def hasMessage_def rules_defs)

lemma fieldValidations_ids:
  "b \<in> set (fieldValidations (bindEnv s frm)) \<Longrightarrow>
   \<exists>i j. i \<noteq> j \<and> field b = getElementById s (js i) \<and> error b = getElementById s (js j)"
  unfolding fieldValidations_def bindEnv_def
  apply simp
  apply (elim disjE)
  apply (rule exI [of _ "''email''"], rule exI [of _ "''email-error''"], simp)
  apply (rule exI [of _ "''name''"], rule exI [of _ "''name-error''"], simp)
  apply (rule exI [of _ "''role''"], rule exI [of _ "''role-error''"], simp)
  apply (rule exI [of _ "''experience''"], rule exI [of _ "''experience-error''"], simp)
  apply (rule exI [of _ "''goal''"], rule exI [of _ "''goal-error''"], simp)
  done

lemma binding_wf:
  assumes "b \<in> set (fieldValidations (bindEnv s frm))" "field b = Some f" "error b = Some e"
  shows "f < length (nodes s) \<and> e < length (nodes s) \<and> f \<noteq> e"
proof -
  from fieldValidations_ids [OF assms(1)] obtain i j where ij: "i \<noteq> j"
    and "field b = getElementById s (js i)" "error b = getElementById s (js j)" by blast
  with assms have f: "getElementById s (js i) = Some f" and e: "getElementById s (js j) = Some e"
    by simp_all
  from ij have "js i \<noteq> js j" by (simp add: js_inj)
  with f e show ?thesis
    using getElementById_Some [OF f] getElementById_Some [OF e] getElementById_distinct by blast
qed


lemma validateField_nth:
  assumes "f < length (nodes s)" "e < length (nodes s)" "f \<noteq> e"
  shows "nodes (snd (validateField (Some f) (Some e) r s)) ! h =
     (let msg = errorMessage r (trim (el_value (nodes s ! f))) in
      if h = e then (nodes s ! e)\<lparr>textContent := msg\<rparr>
      else if h = f then (nodes s ! f)\<lparr>ariaInvalid := Some (if msg = [] then js ''false'' else js ''true''),
                 classList := (if msg = [] then classList (nodes s ! f) - {js ''form__input--error''}
                               else insert (js ''form__input--error'') (classList (nodes s ! f)))\<rparr>
      else nodes s ! h)"
  using assms
  by (simp add: validateField_Some Let_def nodes_updateElement)

lemma validateField_rest:
  "(snd (validateField fld err r s))\<lparr>nodes := nodes s\<rparr> = s"
  by (cases fld; cases err)
     (simp_all add: validateField_None validateField_Some validateField_Some_None Let_def
        updateElement_def)

lemma validateField_length:
  "length (nodes (snd (validateField fld err r s))) = length (nodes s)"
  by (cases fld; cases err)
     (simp_all add: validateField_None validateField_Some validateField_Some_None Let_def
        updateElement_def)

lemma validateField_other:
  "fld \<noteq> Some h \<Longrightarrow> err \<noteq> Some h \<Longrightarrow> nodes (snd (validateField fld err r s)) ! h = nodes s ! h"
  by (cases fld; cases err)
     (simp_all add: validateField_None validateField_Some validateField_Some_None Let_def
        nth_updateElement_other)

lemma validateField_fst:
  "fst (validateField (Some f) (Some e) r s) = Inr (errorMessage r (trim (el_value (nodes s ! f))) = [])"
  by (simp add: validateField_Some Let_def)

text \<open>What validateField does to its two elements depends on these two elements only.\<close>

lemma validateField_local:
  assumes "f < length (nodes s)" "e < length (nodes s)" "f \<noteq> e"
    and "length (nodes t) = length (nodes s)"
    and "nodes t ! f = nodes s ! f" "nodes t ! e = nodes s ! e"
  shows "fst (validateField (Some f) (Some e) r t) = fst (validateField (Some f) (Some e) r s)"
    and "nodes (snd (validateField (Some f) (Some e) r t)) ! f
         = nodes (snd (validateField (Some f) (Some e) r s)) ! f"
    and "nodes (snd (validateField (Some f) (Some e) r t)) ! e
         = nodes (snd (validateField (Some f) (Some e) r s)) ! e"
  using assms by (simp_all add: validateField_fst validateField_nth Let_def)

lemma validateFields_run:
  assumes "\<forall>b \<in> set bs. wfBinding s b"
    and "distinct (concat (map (\<lambda>b. [field b, error b]) bs))"
  shows "\<exists>s'. validateFields bs acc s
           = (Inr (acc \<and> (\<forall>b \<in> set bs. fst (validateField (field b) (error b) (rules b) s) = Inr True)), s')
         \<and> length (nodes s') = length (nodes s)
         \<and> (\<forall>h. (\<forall>b \<in> set bs. field b \<noteq> Some h \<and> error b \<noteq> Some h) \<longrightarrow> nodes s' ! h = nodes s ! h)
         \<and> (\<forall>b \<in> set bs. \<forall>h. field b = Some h \<or> error b = Some h \<longrightarrow>
               nodes s' ! h = nodes (snd (validateField (field b) (error b) (rules b) s)) ! h)"
  using assms
proof (induction bs arbitrary: acc s)
  case Nil
  then show ?case by simp
next
  case (Cons b bs)
  from Cons.prems(1) obtain f e where b: "field b = Some f" "error b = Some e"
    and fl: "f < length (nodes s)" and el: "e < length (nodes s)"
    by (auto simp: wfBinding_def)
  from Cons.prems(2) b have fe: "f \<noteq> e" by auto
  define t where "t = snd (validateField (field b) (error b) (rules b) s)"
  define v where "v = (errorMessage (rules b) (trim (el_value (nodes s ! f))) = [])"
  have step: "validateField (field b) (error b) (rules b) s = (Inr v, t)"
    unfolding t_def v_def b by (simp add: validateField_Some Let_def)
  have len: "length (nodes t) = length (nodes s)"
    unfolding t_def by (rule validateField_length)
  have wf': "\<forall>b' \<in> set bs. wfBinding t b'"
    using Cons.prems(1) len by (simp add: wfBinding_def)
  have dist': "distinct (concat (map (\<lambda>b. [field b, error b]) bs))"
    using Cons.prems(2) by simp
  have untouched: "nodes t ! h = nodes s ! h" if "h \<noteq> f" "h \<noteq> e" for h
    unfolding t_def using that b by (simp add: validateField_other)
  have sep: "f' \<noteq> f \<and> f' \<noteq> e \<and> e' \<noteq> f \<and> e' \<noteq> e"
    if "b' \<in> set bs" "field b' = Some f'" "error b' = Some e'" for b' f' e'
    using Cons.prems(2) that b by auto
  have same: "fst (validateField (field b') (error b') (rules b') t)
              = fst (validateField (field b') (error b') (rules b') s)
            \<and> (\<forall>h. field b' = Some h \<or> error b' = Some h \<longrightarrow>
                 nodes (snd (validateField (field b') (error b') (rules b') t)) ! h
                 = nodes (snd (validateField (field b') (error b') (rules b') s)) ! h)"
    if mem: "b' \<in> set bs" for b'
  proof -
    from Cons.prems(1) mem obtain f' e' where b': "field b' = Some f'" "error b' = Some e'"
      and fl': "f' < length (nodes s)" and el': "e' < length (nodes s)"
      by (auto simp: wfBinding_def)
    from Cons.prems(2) mem b' have fe': "f' \<noteq> e'" by (auto simp: in_set_conv_decomp)
    from sep [OF mem b'] have u: "nodes t ! f' = nodes s ! f'" "nodes t ! e' = nodes s ! e'"
      by (simp_all add: untouched)
    from validateField_local [OF fl' el' fe' len u] show ?thesis
      unfolding b' by auto
  qed
  from Cons.IH [OF wf' dist', of "if \<not> v then False else acc"] obtain s' where
    run: "validateFields bs (if \<not> v then False else acc) t
           = (Inr ((if \<not> v then False else acc) \<and>
                (\<forall>b \<in> set bs. fst (validateField (field b) (error b) (rules b) t) = Inr True)), s')"
    and len': "length (nodes s') = length (nodes t)"
    and keep: "\<forall>h. (\<forall>b \<in> set bs. field b \<noteq> Some h \<and> error b \<noteq> Some h) \<longrightarrow> nodes s' ! h = nodes t ! h"
    and ui: "\<forall>b \<in> set bs. \<forall>h. field b = Some h \<or> error b = Some h \<longrightarrow>
               nodes s' ! h = nodes (snd (validateField (field b) (error b) (rules b) t)) ! h"
    by blast
  have res: "validateFields (b # bs) acc s
      = (Inr (acc \<and> (\<forall>b \<in> set (b # bs). fst (validateField (field b) (error b) (rules b) s) = Inr True)), s')"
    using run same step by (auto simp: b)
  have own: "nodes s' ! h = nodes t ! h" if "h = f \<or> h = e" for h
  proof -
    have "\<forall>b' \<in> set bs. field b' \<noteq> Some h \<and> error b' \<noteq> Some h"
      using Cons.prems(2) that b by auto
    with keep show ?thesis by blast
  qed
  have p3: "\<forall>h. (\<forall>b \<in> set (b # bs). field b \<noteq> Some h \<and> error b \<noteq> Some h) \<longrightarrow> nodes s' ! h = nodes s ! h"
    using keep untouched b by auto
  have p4: "\<forall>b' \<in> set (b # bs). \<forall>h. field b' = Some h \<or> error b' = Some h \<longrightarrow>
               nodes s' ! h = nodes (snd (validateField (field b') (error b') (rules b') s)) ! h"
  proof (intro ballI allI impI)
    fix b' h assume mem: "b' \<in> set (b # bs)" and h: "field b' = Some h \<or> error b' = Some h"
    show "nodes s' ! h = nodes (snd (validateField (field b') (error b') (rules b') s)) ! h"
    proof (cases "b' = b")
      case True
      with h b have "h = f \<or> h = e" by auto
      from own [OF this] True show ?thesis by (simp add: t_def)
    next
      case False
      with mem have m: "b' \<in> set bs" by simp
      from ui m h have "nodes s' ! h = nodes (snd (validateField (field b') (error b') (rules b') t)) ! h"
        by blast
      with same [OF m] h show ?thesis by metis
    qed
  qed
  from res len len' p3 p4 show ?case by auto
qed

lemma distinct_lookup:
  assumes "distinct ids" "\<forall>i \<in> set ids. getElementById s (js i) \<noteq> None"
  shows "distinct (map (\<lambda>i. getElementById s (js i)) ids)"
proof -
  have "inj_on (\<lambda>i. getElementById s (js i)) (set ids)"
  proof (rule inj_onI)
    fix i j assume i: "i \<in> set ids" and j: "j \<in> set ids"
      and eq: "getElementById s (js i) = getElementById s (js j)"
    from assms(2) i obtain h where h: "getElementById s (js i) = Some h" by auto
    with eq have k: "getElementById s (js j) = Some h" by simp
    show "i = j"
    proof (rule ccontr)
      assume "i \<noteq> j"
      then have "js i \<noteq> js j" by (simp add: js_inj)
      from getElementById_distinct [OF h k this] show False by simp
    qed
  qed
  with assms(1) show ?thesis by (simp add: distinct_map)
qed

lemma bindings_handles:
  "concat (map (\<lambda>b. [field b, error b]) (fieldValidations (bindEnv s frm)))
     = map (\<lambda>i. getElementById s (js i)) fieldIds"
  by (simp add: fieldValidations_def bindEnv_def fieldIds_def)

lemma bindings_distinct:
  assumes "present (bindEnv s frm)"
  shows "distinct (concat (map (\<lambda>b. [field b, error b]) (fieldValidations (bindEnv s frm))))"
proof -
  have "distinct fieldIds" by (simp add: fieldIds_def)
  moreover have "\<forall>i \<in> set fieldIds. getElementById s (js i) \<noteq> None"
    using assms by (simp add: present_def bindEnv_def fieldIds_def)
  ultimately show ?thesis unfolding bindings_handles by (rule distinct_lookup)
qed

lemma bindings_wf:
  assumes "present (bindEnv s frm)"
  shows "\<forall>b \<in> set (fieldValidations (bindEnv s frm)). wfBinding s b"
proof
  fix b assume b: "b \<in> set (fieldValidations (bindEnv s frm))"
  with assms obtain f e where fe: "field b = Some f" "error b = Some e"
    by (auto simp: present_def fieldValidations_def)
  from binding_wf [OF b fe] fe show "wfBinding s b" by (auto simp: wfBinding_def)
qed

section \<open>Element ids are stable; the sample pages\<close>

lemma getElementById_cong:
  assumes "map el_id (nodes t) = map el_id (nodes s)"
  shows "getElementById t i = getElementById s i"
proof -
  from assms have len: "length (nodes t) = length (nodes s)" by (rule map_eq_imp_length_eq)
  have "el_id (nodes t ! h) = el_id (nodes s ! h)" if "h < length (nodes s)" for h
    using assms that len by (metis nth_map)
  then have "find (\<lambda>h. el_id (nodes t ! h) = Some i) [0..<length (nodes s)]
           = find (\<lambda>h. el_id (nodes s ! h) = Some i) [0..<length (nodes s)]"
    by (intro find_cong) auto
  then show ?thesis by (simp add: getElementById_def len)
qed

lemma map_updateElement:
  "(\<And>e. p (g e) = p e) \<Longrightarrow> map p (nodes (updateElement h g s)) = map p (nodes s)"
  by (rule nth_equalityI) (simp_all add: rest_updateElement proj_updateElement)

lemma ids_withValues: "map el_id (nodes (withValues vs s)) = map el_id (nodes s)"
proof -
  have "map el_id (nodes (fold (\<lambda>(h, v). updateElement h (\<lambda>e. e\<lparr>el_value := v\<rparr>)) xs s))
        = map el_id (nodes s)" for xs :: "(nat \<times> jsstring) list"
    by (induction xs arbitrary: s) (auto simp: map_updateElement)
  then show ?thesis by (simp add: withValues_def)
qed

lemmas sample_defs = samplePage_def sampleNodes_def mkElement_def mkControl_def

lemma sample_bindEnv: "bindEnv samplePage 0 = sampleEnv"
  by (simp add: bindEnv_def sampleEnv_def getElementById_def sample_defs js_inj upt_rec)

lemma sample_bindEnv_values: "bindEnv (withValues vs samplePage) 0 = sampleEnv"
  using sample_bindEnv
  by (simp add: bindEnv_def getElementById_cong [OF ids_withValues])

lemma sample_form: "getElementById (withValues vs samplePage) (js ''waitlist-form'') = Some 0"
  by (simp add: getElementById_cong [OF ids_withValues])
     (simp add: getElementById_def sample_defs js_inj upt_rec)

lemma invalidEmail_value: "el_value (nodes invalidEmailPage ! 2) = js ''a@b''"
  by (simp add: invalidEmailPage_def withValues_def sample_defs updateElement_def)

lemma sample_value: "el_value (nodes samplePage ! 2) = []"
  by (simp add: sample_defs)

lemma invalidEmail_member:
  "\<lparr>field = Some 2, error = Some 3, rules = emailRules\<rparr>
     \<in> set (fieldValidations (bindEnv invalidEmailPage 0))"
  by (simp add: invalidEmailPage_def sample_bindEnv_values fieldValidations_def sampleEnv_def)

lemma sample_member:
  "\<lparr>field = Some 2, error = Some 3, rules = emailRules\<rparr>
     \<in> set (fieldValidations (bindEnv samplePage 0))"
  by (simp add: sample_bindEnv fieldValidations_def sampleEnv_def)

lemma invalidEmail_length: "length (nodes invalidEmailPage) = 18"
  by (simp add: invalidEmailPage_def withValues_def sample_defs updateElement_def)

lemma invalidEmail_name_value: "el_value (nodes invalidEmailPage ! 5) = js ''Al''"
  by (simp add: invalidEmailPage_def withValues_def sample_defs updateElement_def)

lemma errorMessage_email_sample:
  "errorMessage emailRules (trim (js ''a@b'')) = js ''Please enter a valid email address''"
proof -
  have "trim (js ''a@b'') = js ''a@b''"
    by (simp add: trim_def js_def chr_def isWhiteSpace_def)
  moreover have "\<not> validateEmail (js ''a@b'')" by (simp add: email_eval)
  ultimately show ?thesis
    by (simp add: errorMessage_def emailRules_def truthy_def minLengthFails_def orElse_def)
qed

lemma errorMessage_name_sample: "errorMessage nameRules (trim (js ''Al'')) = []"
proof -
  have "trim (js ''Al'') = js ''Al''"
    by (simp add: trim_def js_def chr_def isWhiteSpace_def)
  then show ?thesis
    by (simp add: errorMessage_def nameRules_def truthy_def minLengthFails_def js_def)
qed

lemma required_message:
  "r \<in> {emailRules, nameRules, roleRules, experienceRules, goalRules} \<Longrightarrow>
   required r \<and> (\<exists>m. requiredMessage r = Some m \<and> m \<noteq> [] \<and> errorMessage r [] = m)"
  by (auto simp: rules_defs errorMessage_def orElse_def truthy_def)

lemma validateFields_value:
  "el_value (nodes (snd (validateFields bs acc s)) ! h) = el_value (nodes s ! h)"
proof (induction bs arbitrary: acc s)
  case Nil
  show ?case by simp
next
  case (Cons b bs)
  obtain r t where step: "validateField (field b) (error b) (rules b) s = (r, t)"
    by (cases "validateField (field b) (error b) (rules b) s")
  then have t: "t = snd (validateField (field b) (error b) (rules b) s)" by simp
  have v: "el_value (nodes t ! h) = el_value (nodes s ! h)"
    unfolding t by (rule validateField_value)
  show ?case
  proof (cases r)
    case (Inl x)
    with step v show ?thesis by simp
  next
    case (Inr ok)
    with step v Cons.IH [of "if \<not> ok then False else acc" t] show ?thesis by simp
  qed
qed

lemma validateFields_rest:
  "(snd (validateFields bs acc s))\<lparr>nodes := nodes s\<rparr> = s"
proof (induction bs arbitrary: acc s)
  case Nil
  show ?case by simp
next
  case (Cons b bs)
  obtain r t where step: "validateField (field b) (error b) (rules b) s = (r, t)"
    by (cases "validateField (field b) (error b) (rules b) s")
  then have t: "t = snd (validateField (field b) (error b) (rules b) s)" by simp
  have v: "t\<lparr>nodes := nodes s\<rparr> = s"
    unfolding t by (rule validateField_rest)
  show ?case
  proof (cases r)
    case (Inl x)
    with step v show ?thesis by simp
  next
    case (Inr ok)
    from Cons.IH [where acc = "if \<not> ok then False else acc" and s = t]
    have ih: "(snd (validateFields bs (if \<not> ok then False else acc) t))\<lparr>nodes := nodes t\<rparr> = t" .
    have "(snd (validateFields bs (if \<not> ok then False else acc) t))\<lparr>nodes := nodes s\<rparr>
          = ((snd (validateFields bs (if \<not> ok then False else acc) t))\<lparr>nodes := nodes t\<rparr>)\<lparr>nodes := nodes s\<rparr>"
      by simp
    also have "\<dots> = t\<lparr>nodes := nodes s\<rparr>" by (simp only: ih)
    finally have "(snd (validateFields bs (if \<not> ok then False else acc) t))\<lparr>nodes := nodes s\<rparr>
          = t\<lparr>nodes := nodes s\<rparr>" .
    with Inr step v show ?thesis by simp
  qed
qed

lemma distinct_concat_disjoint:
  "distinct (concat (map g bs)) \<Longrightarrow> b \<in> set bs \<Longrightarrow> b' \<in> set bs \<Longrightarrow> b \<noteq> b'
   \<Longrightarrow> set (g b) \<inter> set (g b') = {}"
  by (induction bs) auto

lemma bindings_separate:
  assumes "present (bindEnv s frm)"
    and "b \<in> set (fieldValidations (bindEnv s frm))"
    and "b' \<in> set (fieldValidations (bindEnv s frm))" and "b' \<noteq> b"
    and "field b' = Some h \<or> error b' = Some h"
  shows "field b \<noteq> Some h \<and> error b \<noteq> Some h"
proof -
  from distinct_concat_disjoint [OF bindings_distinct [OF assms(1)] assms(3,2,4)]
  have "{field b', error b'} \<inter> {field b, error b} = {}" by simp
  with assms(5) show ?thesis by auto
qed

section \<open>The claims about validateField and validateForm\<close>

text \<open>
  C1: for all rules whose checks have configured messages, every field and every value,
  \<open>validateField\<close> checks the trimmed value against the rules in the order required,
  minimum length, email format and stops at the first rule that fails: it returns false and
  the error element shows the message configured for that rule; when no rule fails it
  returns true and the error element is empty. The rules of every binding of the form have
  configured messages, and the field and the error element of a binding are two elements
  of the page.
\<close>

theorem validateField_priority:
  assumes "configured r"
    and "f < length (nodes s)" and "e < length (nodes s)" and "f \<noteq> e"
  shows "(\<exists>s'. validateField (Some f) (Some e) r s
             = (Inr (fst (expectedResult r (trim (el_value (nodes s ! f))))), s')
           \<and> Some (textContent (nodes s' ! e))
             = snd (expectedResult r (trim (el_value (nodes s ! f)))))
       \<and> (\<forall>b \<in> set (fieldValidations (bindEnv s frm)).
             configured (rules b)
             \<and> (\<forall>f' e'. field b = Some f' \<and> error b = Some e' \<longrightarrow>
                   f' < length (nodes s) \<and> e' < length (nodes s) \<and> f' \<noteq> e'))"
proof -
  have run: "\<exists>s'. validateField (Some f) (Some e) r s
             = (Inr (fst (expectedResult r (trim (el_value (nodes s ! f))))), s')
           \<and> Some (textContent (nodes s' ! e))
             = snd (expectedResult r (trim (el_value (nodes s ! f))))"
    using assms(3)
    by (simp add: expectedResult_configured [OF assms(1)] validateField_Some Let_def
        nth_updateElement_same rest_updateElement)
  have "configured (rules b)
        \<and> (\<forall>f' e'. field b = Some f' \<and> error b = Some e' \<longrightarrow>
              f' < length (nodes s) \<and> e' < length (nodes s) \<and> f' \<noteq> e')"
    if "b \<in> set (fieldValidations (bindEnv s frm))" for b
    using that configured_bindings [OF that] binding_wf [OF that] by blast
  with run show ?thesis by blast
qed

theorem validateField_priority_witness:
  "\<exists>s'. validateField (Some 2) (Some 3) lengthAndEmailRules invalidEmailPage = (Inr False, s')
      \<and> textContent (nodes s' ! 3) = js ''Too short''"
proof -
  have c: "configured lengthAndEmailRules"
    by (simp add: configured_def hasMessage_def lengthAndEmailRules_def)
  have "trim (js ''a@b'') = js ''a@b''"
    by (simp add: trim_def js_def chr_def isWhiteSpace_def)
  then have "expectedResult lengthAndEmailRules (trim (el_value (nodes invalidEmailPage ! 2)))
      = (False, Some (js ''Too short''))"
    by (simp add: invalidEmail_value expectedResult_def priorityOrder_def lengthAndEmailRules_def
        js_def)
  with validateField_priority [OF c, of 2 invalidEmailPage 3] show ?thesis
    by (auto simp: invalidEmail_length)
qed

text \<open>
  C8: for every field whose rules have \<open>required\<close> set, validating an empty value or one
  of white space only gives an invalid result, and the error element shows the
  required-message configured for the field.
\<close>

theorem required_rejects_blank:
  assumes "b \<in> set (fieldValidations (bindEnv s frm))"
    and "required (rules b)"
    and "field b = Some f" and "error b = Some e"
    and "list_all isWhiteSpace (el_value (nodes s ! f))"
  shows "\<exists>s' m. validateField (field b) (error b) (rules b) s = (Inr False, s')
           \<and> requiredMessage (rules b) = Some m
           \<and> textContent (nodes s' ! e) = m
           \<and> ariaInvalid (nodes s' ! f) = Some (js ''true'')"
proof -
  from binding_wf [OF assms(1,3,4)]
  have fl: "f < length (nodes s)" and el: "e < length (nodes s)" and fe: "f \<noteq> e" by simp_all
  from required_message [OF fieldValidations_rules [OF assms(1)]] obtain m where
    m: "requiredMessage (rules b) = Some m" "m \<noteq> []" "errorMessage (rules b) [] = m" by blast
  from assms(5) have t: "trim (el_value (nodes s ! f)) = []" by (rule trim_whitespace)
  show ?thesis
    using assms(3,4) fl el fe m t
    by (simp add: validateField_Some Let_def nodes_updateElement)
qed

theorem required_rejects_blank_witness:
  "\<exists>s'. validateField (Some 2) (Some 3) emailRules samplePage = (Inr False, s')
      \<and> textContent (nodes s' ! 3) = js ''Email address is required''
      \<and> ariaInvalid (nodes s' ! 2) = Some (js ''true'')"
proof -
  have "required emailRules" and "requiredMessage emailRules = Some (js ''Email address is required'')"
    by (simp_all add: emailRules_def)
  moreover have "list_all isWhiteSpace (el_value (nodes samplePage ! 2))"
    by (simp add: sample_value)
  ultimately show ?thesis
    using required_rejects_blank [OF sample_member, of 2 3] by auto
qed

text \<open>
  C9: \<open>validateField\<close> is idempotent: a second call on the page that the first call
  left, the value of the field unchanged, returns what the first returned and leaves the
  page as the first left it, so the \<open>aria-invalid\<close> flag, the error class and the error
  text are the same both times.
\<close>

theorem validateField_idempotent:
  "validateField fld err r (snd (validateField fld err r s)) = validateField fld err r s"
proof (cases fld)
  case None
  then show ?thesis by (simp add: validateField_None)
next
  case (Some f)
  have v: "el_value (nodes (snd (validateField fld err r s)) ! f) = el_value (nodes s ! f)"
    by (rule validateField_value)
  show ?thesis
  proof (cases err)
    case None
    with Some v show ?thesis
      by (simp add: validateField_Some_None Let_def updateElement_comp)
  next
    case (Some e)
    show ?thesis
    proof (cases "e = f")
      case True
      with Some \<open>fld = Some f\<close> v show ?thesis
        by (simp add: validateField_Some Let_def updateElement_comp)
    next
      case False
      with Some \<open>fld = Some f\<close> v show ?thesis
        apply (simp add: validateField_Some Let_def)
        apply (simp add: updateElement_swap [of f e] updateElement_comp)
        done
    qed
  qed
qed

theorem validateField_idempotent_witness:
  "validateField (Some 2) (Some 3) emailRules
     (snd (validateField (Some 2) (Some 3) emailRules invalidEmailPage))
   = validateField (Some 2) (Some 3) emailRules invalidEmailPage"
  by (rule validateField_idempotent)

text \<open>
  C2: \<open>validateForm\<close> validates each of the five field bindings whatever the others
  gave: afterwards the elements of every binding are as \<open>validateField\<close> on that binding
  leaves them. It returns true exactly when \<open>validateField\<close> returns true for every
  binding, and so false exactly when it returns false for one of them.
\<close>

theorem validateForm_every_field:
  assumes "present (bindEnv s frm)"
  shows "\<exists>s'. validateForm (bindEnv s frm) s
           = (Inr (\<forall>b \<in> set (fieldValidations (bindEnv s frm)).
                     fst (validateField (field b) (error b) (rules b) s) = Inr True), s')
         \<and> (\<forall>b \<in> set (fieldValidations (bindEnv s frm)). \<forall>h.
               field b = Some h \<or> error b = Some h \<longrightarrow>
               nodes s' ! h = nodes (snd (validateField (field b) (error b) (rules b) s)) ! h)
         \<and> (\<forall>b \<in> set (fieldValidations (bindEnv s frm)).
               fst (validateField (field b) (error b) (rules b) s) = Inr True
               \<or> fst (validateField (field b) (error b) (rules b) s) = Inr False)
         \<and> length (fieldValidations (bindEnv s frm)) = 5"
proof -
  from validateFields_run [OF bindings_wf [OF assms] bindings_distinct [OF assms], of True]
  obtain s' where
    run: "validateFields (fieldValidations (bindEnv s frm)) True s
           = (Inr (True \<and> (\<forall>b \<in> set (fieldValidations (bindEnv s frm)).
                     fst (validateField (field b) (error b) (rules b) s) = Inr True)), s')"
    and ui: "\<forall>b \<in> set (fieldValidations (bindEnv s frm)). \<forall>h.
               field b = Some h \<or> error b = Some h \<longrightarrow>
               nodes s' ! h = nodes (snd (validateField (field b) (error b) (rules b) s)) ! h"
    by blast
  have bool: "\<forall>b \<in> set (fieldValidations (bindEnv s frm)).
               fst (validateField (field b) (error b) (rules b) s) = Inr True
               \<or> fst (validateField (field b) (error b) (rules b) s) = Inr False"
  proof
    fix b assume "b \<in> set (fieldValidations (bindEnv s frm))"
    with bindings_wf [OF assms] obtain f e where "field b = Some f" "error b = Some e"
      by (auto simp: wfBinding_def)
    then show "fst (validateField (field b) (error b) (rules b) s) = Inr True
               \<or> fst (validateField (field b) (error b) (rules b) s) = Inr False"
      by (simp add: validateField_fst)
  qed
  have "length (fieldValidations (bindEnv s frm)) = 5" by (simp add: fieldValidations_def)
  with run ui bool show ?thesis unfolding validateForm_def by simp
qed

theorem validateForm_every_field_witness:
  "\<exists>s'. validateForm sampleEnv invalidEmailPage = (Inr False, s')
      \<and> ariaInvalid (nodes s' ! 2) = Some (js ''true'')
      \<and> ariaInvalid (nodes s' ! 5) = Some (js ''false'')"
proof -
  let ?E = "bindEnv invalidEmailPage 0"
  have env: "?E = sampleEnv"
    by (simp add: invalidEmailPage_def sample_bindEnv_values)
  have pres: "present ?E"
    by (simp add: env present_def sampleEnv_def)
  let ?be = "\<lparr>field = Some 2, error = Some 3, rules = emailRules\<rparr>"
  let ?bn = "\<lparr>field = Some 5, error = Some 6, rules = nameRules\<rparr>"
  have mem: "?be \<in> set (fieldValidations ?E)" "?bn \<in> set (fieldValidations ?E)"
    by (simp_all add: env fieldValidations_def sampleEnv_def)
  have em: "fst (validateField (Some 2) (Some 3) emailRules invalidEmailPage) = Inr False"
    by (simp add: validateField_fst invalidEmail_value errorMessage_email_sample)
  have ue: "ariaInvalid (nodes (snd (validateField (Some 2) (Some 3) emailRules invalidEmailPage)) ! 2)
            = Some (js ''true'')"
    by (simp add: validateField_nth invalidEmail_length invalidEmail_value errorMessage_email_sample)
  have un: "ariaInvalid (nodes (snd (validateField (Some 5) (Some 6) nameRules invalidEmailPage)) ! 5)
            = Some (js ''false'')"
    by (simp add: validateField_nth invalidEmail_length invalidEmail_name_value
        errorMessage_name_sample)
  from validateForm_every_field [OF pres] obtain s' where
    run: "validateForm ?E invalidEmailPage
           = (Inr (\<forall>b \<in> set (fieldValidations ?E).
                     fst (validateField (field b) (error b) (rules b) invalidEmailPage) = Inr True), s')"
    and ui: "\<forall>b \<in> set (fieldValidations ?E). \<forall>h.
               field b = Some h \<or> error b = Some h \<longrightarrow>
               nodes s' ! h
               = nodes (snd (validateField (field b) (error b) (rules b) invalidEmailPage)) ! h"
    by blast
  from mem(1) em have "\<not> (\<forall>b \<in> set (fieldValidations ?E).
      fst (validateField (field b) (error b) (rules b) invalidEmailPage) = Inr True)"
    by force
  with run have r: "validateForm sampleEnv invalidEmailPage = (Inr False, s')"
    by (simp add: env)
  from ui mem(1) have "nodes s' ! 2
      = nodes (snd (validateField (Some 2) (Some 3) emailRules invalidEmailPage)) ! 2"
    by force
  moreover from ui mem(2) have "nodes s' ! 5
      = nodes (snd (validateField (Some 5) (Some 6) nameRules invalidEmailPage)) ! 5"
    by force
  ultimately show ?thesis using r ue un by simp
qed

text \<open>
  C10: \<open>validateField\<close> and \<open>validateForm\<close> leave the value of every element as it
  was and change nothing of the page but elements. \<open>validateField\<close> changes at most the
  field, in its \<open>aria-invalid\<close> attribute and in whether it has the error class, and the
  error element, in its text; the elements of every other binding stay as they were.
  \<open>validateForm\<close> leaves every element outside the bindings as it was, and the elements
  of a binding as \<open>validateField\<close> on that binding leaves them.
\<close>

theorem validation_frame:
  assumes "present (bindEnv s frm)"
    and "b \<in> set (fieldValidations (bindEnv s frm))"
    and "field b = Some f" and "error b = Some e"
    and "t = snd (validateField (field b) (error b) (rules b) s)"
    and "u = snd (validateForm (bindEnv s frm) s)"
  shows "(\<forall>h. el_value (nodes t ! h) = el_value (nodes s ! h))
       \<and> (\<forall>h. el_value (nodes u ! h) = el_value (nodes s ! h))
       \<and> t\<lparr>nodes := nodes s\<rparr> = s \<and> u\<lparr>nodes := nodes s\<rparr> = s
       \<and> (\<forall>h. h \<noteq> f \<and> h \<noteq> e \<longrightarrow> nodes t ! h = nodes s ! h)
       \<and> (\<forall>b' \<in> set (fieldValidations (bindEnv s frm)). b' \<noteq> b \<longrightarrow>
            (\<forall>h. field b' = Some h \<or> error b' = Some h \<longrightarrow> nodes t ! h = nodes s ! h))
       \<and> (\<forall>h. (\<forall>b' \<in> set (fieldValidations (bindEnv s frm)).
                   field b' \<noteq> Some h \<and> error b' \<noteq> Some h) \<longrightarrow> nodes u ! h = nodes s ! h)
       \<and> (\<exists>a c. nodes t ! f = (nodes s ! f)\<lparr>ariaInvalid := a, classList := c\<rparr>
              \<and> c - {js ''form__input--error''} = classList (nodes s ! f) - {js ''form__input--error''}
              \<and> nodes u ! f = nodes t ! f)
       \<and> (\<exists>m. nodes t ! e = (nodes s ! e)\<lparr>textContent := m\<rparr> \<and> nodes u ! e = nodes t ! e)"
proof -
  from binding_wf [OF assms(2,3,4)]
  have fl: "f < length (nodes s)" and el: "e < length (nodes s)" and fe: "f \<noteq> e" by simp_all
  have t: "t = snd (validateField (Some f) (Some e) (rules b) s)"
    using assms(3,4,5) by simp
  have p1: "\<forall>h. el_value (nodes t ! h) = el_value (nodes s ! h)"
    unfolding assms(5) by (simp add: validateField_value)
  have p2: "\<forall>h. el_value (nodes u ! h) = el_value (nodes s ! h)"
    unfolding assms(6) validateForm_def by (simp add: validateFields_value)
  have p3: "t\<lparr>nodes := nodes s\<rparr> = s" unfolding assms(5) by (rule validateField_rest)
  have p4: "u\<lparr>nodes := nodes s\<rparr> = s"
    unfolding assms(6) validateForm_def by (rule validateFields_rest)
  have p5: "\<forall>h. h \<noteq> f \<and> h \<noteq> e \<longrightarrow> nodes t ! h = nodes s ! h"
    unfolding t by (simp add: validateField_other)
  have p6: "\<forall>b' \<in> set (fieldValidations (bindEnv s frm)). b' \<noteq> b \<longrightarrow>
            (\<forall>h. field b' = Some h \<or> error b' = Some h \<longrightarrow> nodes t ! h = nodes s ! h)"
  proof (intro ballI impI allI)
    fix b' h assume "b' \<in> set (fieldValidations (bindEnv s frm))" "b' \<noteq> b"
      "field b' = Some h \<or> error b' = Some h"
    from bindings_separate [OF assms(1,2) this]
    show "nodes t ! h = nodes s ! h"
      unfolding assms(5) by (simp add: validateField_other)
  qed
  from validateFields_run [OF bindings_wf [OF assms(1)] bindings_distinct [OF assms(1)], of True]
  obtain s' where run: "validateFields (fieldValidations (bindEnv s frm)) True s
        = (Inr (True \<and> (\<forall>b \<in> set (fieldValidations (bindEnv s frm)).
                 fst (validateField (field b) (error b) (rules b) s) = Inr True)), s')"
    and keep: "\<forall>h. (\<forall>b \<in> set (fieldValidations (bindEnv s frm)).
                  field b \<noteq> Some h \<and> error b \<noteq> Some h) \<longrightarrow> nodes s' ! h = nodes s ! h"
    and ui: "\<forall>b \<in> set (fieldValidations (bindEnv s frm)). \<forall>h.
               field b = Some h \<or> error b = Some h \<longrightarrow>
               nodes s' ! h = nodes (snd (validateField (field b) (error b) (rules b) s)) ! h"
    by blast
  from run have u: "u = s'" unfolding assms(6) validateForm_def by simp
  have p7: "\<forall>h. (\<forall>b' \<in> set (fieldValidations (bindEnv s frm)).
                   field b' \<noteq> Some h \<and> error b' \<noteq> Some h) \<longrightarrow> nodes u ! h = nodes s ! h"
    using keep u by simp
  from ui assms(2,3,4,5) u have uf: "nodes u ! f = nodes t ! f" and ue: "nodes u ! e = nodes t ! e"
    by auto
  have p8: "\<exists>a c. nodes t ! f = (nodes s ! f)\<lparr>ariaInvalid := a, classList := c\<rparr>
              \<and> c - {js ''form__input--error''} = classList (nodes s ! f) - {js ''form__input--error''}
              \<and> nodes u ! f = nodes t ! f"
    using uf fe unfolding t by (auto simp: validateField_nth [OF fl el fe] Let_def)
  have p9: "\<exists>m. nodes t ! e = (nodes s ! e)\<lparr>textContent := m\<rparr> \<and> nodes u ! e = nodes t ! e"
    using ue unfolding t by (auto simp: validateField_nth [OF fl el fe] Let_def)
  show ?thesis by (intro conjI) (rule p1 p2 p3 p4 p5 p6 p7 p8 p9)+
qed

theorem validation_frame_witness:
  "el_value (nodes (snd (validateForm sampleEnv invalidEmailPage)) ! 2) = js ''a@b''
   \<and> nodes (snd (validateField (Some 2) (Some 3) emailRules invalidEmailPage)) ! 5
     = nodes invalidEmailPage ! 5"
proof -
  let ?E = "bindEnv invalidEmailPage 0"
  have env: "?E = sampleEnv"
    by (simp add: invalidEmailPage_def sample_bindEnv_values)
  have pres: "present ?E"
    by (simp add: env present_def sampleEnv_def)
  from validation_frame [OF pres invalidEmail_member, of 2 3, OF _ _ refl refl]
  show ?thesis by (simp add: env invalidEmail_value)
qed

section \<open>What the operations keep\<close>

lemma evolves_refl [simp]: "evolves s s"
  by (simp add: evolves_def elementEvolves_def)

lemma evolves_trans: "evolves s t \<Longrightarrow> evolves t u \<Longrightarrow> evolves s u"
  by (simp add: evolves_def elementEvolves_def)

lemma nth_updateElement_cases:
  "nodes (updateElement h g s) ! k = nodes s ! k \<or> nodes (updateElement h g s) ! k = g (nodes s ! k)"
  by (cases "h < length (nodes s)"; cases "k = h")
     (simp_all add: updateElement_def list_update_beyond)

lemma evolves_updateElement:
  assumes "\<And>e. elementEvolves e (g e)"
  shows "evolves s (updateElement h g s)"
proof -
  have "elementEvolves (nodes s ! k) (nodes (updateElement h g s) ! k)" for k
    using nth_updateElement_cases [of h g s k] assms [of "nodes s ! k"]
    by (auto simp: elementEvolves_def)
  then show ?thesis by (simp add: evolves_def rest_updateElement)
qed

lemma evolves_same_nodes:
  "nodes t = nodes s \<Longrightarrow> listeners t = listeners s \<Longrightarrow> evolves s t"
  by (simp add: evolves_def elementEvolves_def)

lemma visible_not_error: "js ''visible'' \<noteq> js ''form__input--error''"
  by (simp add: js_inj)

lemma evolves_primitives:
  "evolves s (setAriaInvalid h v s)"
  "evolves s (classListAdd h c s)"
  "c \<noteq> js ''visible'' \<Longrightarrow> evolves s (classListRemove h c s)"
  "evolves s (setTextContent h m s)"
  "evolves s (setStyleDisplay h d s)"
  "evolves s (updateElement h (\<lambda>e. e\<lparr>el_value := w\<rparr>) s)"
  "evolves s (focus h s)"
  "evolves s (scrollIntoView h s)"
  "evolves s (consoleWrite l s)"
  "evolves s (s\<lparr>defaultPrevented := d'\<rparr>)"
  unfolding setAriaInvalid_def classListAdd_def classListRemove_def setTextContent_def
    setStyleDisplay_def
  by (auto intro!: evolves_updateElement evolves_same_nodes
      simp: elementEvolves_def focus_def scrollIntoView_def consoleWrite_def)

lemma evolves_step: "evolves s t \<Longrightarrow> (\<And>x. evolves x (f x)) \<Longrightarrow> evolves s (f t)"
  by (blast intro: evolves_trans)

lemma evolves_validateField: "evolves s (snd (validateField fld err r s))"
proof -
  have rm: "evolves x (classListRemove h (js ''form__input--error'') x)" for x h
    by (rule evolves_primitives(3)) (simp add: js_inj)
  show ?thesis
    by (cases fld; cases err)
       (auto simp: validateField_def Let_def
          intro!: evolves_step [OF _ evolves_primitives(4)] evolves_step [OF _ evolves_primitives(2)]
            evolves_step [OF _ rm] evolves_primitives(1))
qed

lemma evolves_validateFields: "evolves s (snd (validateFields bs acc s))"
proof (induction bs arbitrary: acc s)
  case Nil
  show ?case by simp
next
  case (Cons b bs)
  obtain r t where step: "validateField (field b) (error b) (rules b) s = (r, t)"
    by (cases "validateField (field b) (error b) (rules b) s")
  then have "t = snd (validateField (field b) (error b) (rules b) s)" by simp
  then have st: "evolves s t" by (simp add: evolves_validateField)
  show ?case
  proof (cases r)
    case (Inl x)
    with step st show ?thesis by simp
  next
    case (Inr ok)
    from Cons.IH [where acc = "if \<not> ok then False else acc" and s = t] st
    have "evolves s (snd (validateFields bs (if \<not> ok then False else acc) t))"
      by (rule evolves_trans [rotated])
    with Inr step show ?thesis by simp
  qed
qed

lemma evolves_validateForm: "evolves s (snd (validateForm E s))"
  by (simp add: validateForm_def evolves_validateFields)

lemma evolves_hide:
  "evolves s (fold (\<lambda>h. setStyleDisplay h d) hs s)"
proof (induction hs arbitrary: s)
  case Nil
  show ?case by simp
next
  case (Cons h hs)
  from Cons.IH [of "setStyleDisplay h d s"] evolves_primitives(5) [of s h d]
  show ?case by (auto intro: evolves_trans)
qed

lemma evolves_showSuccessMessage: "evolves s (snd (showSuccessMessage E s))"
  by (auto simp: showSuccessMessage_def Let_def split: option.splits
      intro!: evolves_hide evolves_step [OF _ evolves_primitives(5)]
        evolves_step [OF _ evolves_primitives(2)] evolves_step [OF _ evolves_primitives(8)])

lemma evolves_handleFormSubmit: "evolves s (snd (handleFormSubmit E s))"
proof -
  let ?s0 = "s\<lparr>defaultPrevented := True\<rparr>"
  obtain r s1 where v: "validateForm E ?s0 = (r, s1)" by (cases "validateForm E ?s0")
  then have "s1 = snd (validateForm E ?s0)" by simp
  then have "evolves ?s0 s1" by (simp add: evolves_validateForm)
  with evolves_primitives(10) [of s True] have s1: "evolves s s1" by (rule evolves_trans)
  obtain r2 s2 where ss: "showSuccessMessage E s1 = (r2, s2)" by (cases "showSuccessMessage E s1")
  then have "s2 = snd (showSuccessMessage E s1)" by simp
  then have "evolves s1 s2" by (simp add: evolves_showSuccessMessage)
  with s1 have s2: "evolves s s2" by (rule evolves_trans)
  show ?thesis
    using v ss s1 s2
    by (auto simp: handleFormSubmit_def split: sum.splits option.splits
        intro: evolves_step [OF _ evolves_primitives(7)] evolves_step [OF _ evolves_primitives(9)])
qed

lemma evolves_runListener: "evolves s (snd (runListener l s))"
proof (cases l)
  case (OnBlur b)
  obtain r t where v: "validateField (field b) (error b) (rules b) s = (r, t)"
    by (cases "validateField (field b) (error b) (rules b) s")
  then have "t = snd (validateField (field b) (error b) (rules b) s)" by simp
  then have "evolves s t" by (simp add: evolves_validateField)
  with v OnBlur show ?thesis by (auto simp: blurListener_def split: sum.splits)
next
  case (OnInput b)
  obtain r t where v: "validateField (field b) (error b) (rules b) s = (r, t)"
    by (cases "validateField (field b) (error b) (rules b) s")
  then have "t = snd (validateField (field b) (error b) (rules b) s)" by simp
  then have "evolves s t" by (simp add: evolves_validateField)
  with v OnInput show ?thesis by (auto simp: inputListener_def split: sum.splits option.splits)
next
  case (OnSubmit E)
  then show ?thesis by (simp add: evolves_handleFormSubmit)
qed

lemma evolves_listeners_fold:
  "evolves s t \<Longrightarrow>
   evolves s (fold (\<lambda>(tg, ty', l) s'. if tg = target \<and> ty' = ty then snd (runListener l s') else s') ls t)"
proof (induction ls arbitrary: t)
  case Nil
  then show ?case by simp
next
  case (Cons x ls)
  obtain tg ty' l where x: "x = (tg, ty', l)" by (cases x)
  have "evolves s (if tg = target \<and> ty' = ty then snd (runListener l t) else t)"
    using Cons.prems evolves_runListener [of t l] by (auto intro: evolves_trans)
  from Cons.IH [OF this] x show ?case by simp
qed

lemma evolves_dispatchEvent: "evolves s (dispatchEvent target ty s)"
  unfolding dispatchEvent_def
  by (rule evolves_listeners_fold) (rule evolves_primitives(10))

lemma evolves_act: "evolves s (act a s)"
proof (cases a)
  case (Type h v)
  have "evolves s (updateElement h (\<lambda>e. e\<lparr>el_value := v\<rparr>) s)" by (rule evolves_primitives(6))
  then show ?thesis using Type evolves_dispatchEvent by (auto intro: evolves_trans)
qed (simp_all add: evolves_dispatchEvent)

lemma evolves_run: "evolves s (run as s)"
  unfolding run_def
proof (induction as arbitrary: s)
  case Nil
  show ?case by simp
next
  case (Cons a as)
  from evolves_act [of s a] Cons.IH [of "act a s"] show ?case by (auto intro: evolves_trans)
qed

lemma evolves_ids: "evolves s t \<Longrightarrow> map el_id (nodes t) = map el_id (nodes s)"
  by (rule nth_equalityI) (simp_all add: evolves_def elementEvolves_def)

lemma evolves_getElementById: "evolves s t \<Longrightarrow> getElementById t i = getElementById s i"
  by (rule getElementById_cong) (rule evolves_ids)

lemma evolves_Submitted:
  assumes "evolves s t" "phase s = Submitted"
  shows "phase t = Submitted"
proof -
  from assms(2) obtain m where m: "getElementById s (js ''form-success'') = Some m"
    and v: "js ''visible'' \<in> classList (nodes s ! m)"
    by (auto simp: phase_def split: option.splits if_splits)
  from assms(1) v have "js ''visible'' \<in> classList (nodes t ! m)"
    by (simp add: evolves_def elementEvolves_def)
  with m show ?thesis
    by (simp add: phase_def evolves_getElementById [OF assms(1)])
qed

section \<open>Validation, selectors and the phase\<close>

lemma updateElement_flag:
  "updateElement h g (s\<lparr>defaultPrevented := d\<rparr>) = (updateElement h g s)\<lparr>defaultPrevented := d\<rparr>"
  by (simp add: updateElement_def)

lemma validateField_flag:
  "validateField fld err r (s\<lparr>defaultPrevented := d\<rparr>)
   = (fst (validateField fld err r s), (snd (validateField fld err r s))\<lparr>defaultPrevented := d\<rparr>)"
  by (cases fld; cases err)
     (simp_all add: validateField_None validateField_Some validateField_Some_None Let_def
        updateElement_flag)

lemma validateFields_flag:
  "validateFields bs acc (s\<lparr>defaultPrevented := d\<rparr>)
   = (fst (validateFields bs acc s), (snd (validateFields bs acc s))\<lparr>defaultPrevented := d\<rparr>)"
proof (induction bs arbitrary: acc s)
  case Nil
  show ?case by simp
next
  case (Cons b bs)
  obtain r t where step: "validateField (field b) (error b) (rules b) s = (r, t)"
    by (cases "validateField (field b) (error b) (rules b) s")
  with validateField_flag [where fld = "field b" and err = "error b" and r = "rules b" and s = s and d = d]
  have step': "validateField (field b) (error b) (rules b) (s\<lparr>defaultPrevented := d\<rparr>)
      = (r, t\<lparr>defaultPrevented := d\<rparr>)" by simp
  show ?case
  proof (cases r)
    case (Inl x)
    with step step' show ?thesis by simp
  next
    case (Inr ok)
    with step step' Cons.IH [where acc = "if \<not> ok then False else acc" and s = t]
    show ?thesis by simp
  qed
qed

lemma validateForm_flag:
  "validateForm E (s\<lparr>defaultPrevented := d\<rparr>)
   = (fst (validateForm E s), (snd (validateForm E s))\<lparr>defaultPrevented := d\<rparr>)"
  by (simp add: validateForm_def validateFields_flag)

lemma validateField_proj:
  assumes "\<And>x a. p (x\<lparr>ariaInvalid := a\<rparr>) = p x"
    and "\<And>x c. c - {js ''form__input--error''} = classList x - {js ''form__input--error''}
           \<Longrightarrow> p (x\<lparr>classList := c\<rparr>) = p x"
    and "\<And>x m. p (x\<lparr>textContent := m\<rparr>) = p x"
  shows "p (nodes (snd (validateField fld err r s)) ! h) = p (nodes s ! h)"
proof -
  have a: "p (nodes (setAriaInvalid k v x) ! h) = p (nodes x ! h)" for k v x
    unfolding setAriaInvalid_def by (rule proj_updateElement [where p = p]) (rule assms(1))
  have b: "p (nodes (classListAdd k c x) ! h) = p (nodes x ! h)"
    if "c = js ''form__input--error''" for k c x
    unfolding classListAdd_def using that
    by (intro proj_updateElement [where p = p] assms(2)) auto
  have c: "p (nodes (classListRemove k c x) ! h) = p (nodes x ! h)"
    if "c = js ''form__input--error''" for k c x
    unfolding classListRemove_def using that
    by (intro proj_updateElement [where p = p] assms(2)) auto
  have d: "p (nodes (setTextContent k m x) ! h) = p (nodes x ! h)" for k m x
    unfolding setTextContent_def by (rule proj_updateElement [where p = p]) (rule assms(3))
  show ?thesis
    by (cases fld; cases err) (simp_all add: validateField_def Let_def a b c d)
qed

lemma validateFields_proj:
  assumes "\<And>x a. p (x\<lparr>ariaInvalid := a\<rparr>) = p x"
    and "\<And>x c. c - {js ''form__input--error''} = classList x - {js ''form__input--error''}
           \<Longrightarrow> p (x\<lparr>classList := c\<rparr>) = p x"
    and "\<And>x m. p (x\<lparr>textContent := m\<rparr>) = p x"
  shows "p (nodes (snd (validateFields bs acc s)) ! h) = p (nodes s ! h)"
proof (induction bs arbitrary: acc s)
  case Nil
  show ?case by simp
next
  case (Cons b bs)
  obtain r t where step: "validateField (field b) (error b) (rules b) s = (r, t)"
    by (cases "validateField (field b) (error b) (rules b) s")
  then have t: "t = snd (validateField (field b) (error b) (rules b) s)" by simp
  have v: "p (nodes t ! h) = p (nodes s ! h)"
    unfolding t by (rule validateField_proj [where p = p, OF assms])
  show ?case
  proof (cases r)
    case (Inl x)
    with step v show ?thesis by simp
  next
    case (Inr ok)
    with step v Cons.IH [where acc = "if \<not> ok then False else acc" and s = t] show ?thesis by simp
  qed
qed

lemma validateFields_length:
  "length (nodes (snd (validateFields bs acc s))) = length (nodes s)"
  using evolves_validateFields [of s bs acc] by (simp add: evolves_def)

lemma hasAncestor_cong:
  assumes "length es' = length es" "\<And>h. parent (es' ! h) = parent (es ! h)"
  shows "hasAncestor es' k a h = hasAncestor es k a h"
  by (induction k arbitrary: h) (simp_all add: assms split: option.splits)

lemma descendants_cong:
  assumes "length (nodes t) = length (nodes s)" "\<And>h. parent (nodes t ! h) = parent (nodes s ! h)"
  shows "descendants t a = descendants s a"
proof -
  have "hasAncestor (nodes t) k a = hasAncestor (nodes s) k a" for k
    by (rule ext) (rule hasAncestor_cong [OF assms])
  then show ?thesis by (simp add: descendants_def assms(1))
qed

lemma querySelectorAll_cong:
  assumes "length (nodes t) = length (nodes s)" "\<And>h. parent (nodes t ! h) = parent (nodes s ! h)"
    and "\<And>h. selects sel (nodes t ! h) = selects sel (nodes s ! h)"
  shows "querySelectorAll t a sel = querySelectorAll s a sel"
  by (simp add: querySelectorAll_def descendants_cong [OF assms(1,2)] assms(3))

lemma querySelector_cong:
  assumes "length (nodes t) = length (nodes s)" "\<And>h. parent (nodes t ! h) = parent (nodes s ! h)"
    and "\<And>h. selects sel (nodes t ! h) = selects sel (nodes s ! h)"
  shows "querySelector t a sel = querySelector s a sel"
  by (simp add: querySelector_def querySelectorAll_cong [OF assms])

lemma querySelectorAll_validateFields:
  assumes "c \<noteq> js ''form__input--error''"
  shows "querySelectorAll (snd (validateFields bs acc s)) a (HasClass c) = querySelectorAll s a (HasClass c)"
proof (rule querySelectorAll_cong)
  show "length (nodes (snd (validateFields bs acc s))) = length (nodes s)"
    by (rule validateFields_length)
  show "parent (nodes (snd (validateFields bs acc s)) ! h) = parent (nodes s ! h)" for h
    by (rule validateFields_proj) simp_all
  have "(c \<in> classList (nodes (snd (validateFields bs acc s)) ! h)) = (c \<in> classList (nodes s ! h))" for h
    by (rule validateFields_proj [where p = "\<lambda>x. c \<in> classList x"]) (use assms in auto)
  then show "selects (HasClass c) (nodes (snd (validateFields bs acc s)) ! h)
           = selects (HasClass c) (nodes s ! h)" for h by simp
qed

lemma phase_cong:
  assumes "length (nodes t) = length (nodes s)"
    and "\<And>h. el_id (nodes t ! h) = el_id (nodes s ! h)"
    and "\<And>h. (js ''visible'' \<in> classList (nodes t ! h)) = (js ''visible'' \<in> classList (nodes s ! h))"
  shows "phase t = phase s"
proof -
  have "map el_id (nodes t) = map el_id (nodes s)"
    by (rule nth_equalityI) (simp_all add: assms)
  then have "getElementById t i = getElementById s i" for i by (rule getElementById_cong)
  then show ?thesis by (simp add: phase_def assms(3) split: option.splits)
qed

lemma phase_validateField: "phase (snd (validateField fld err r s)) = phase s"
proof (rule phase_cong)
  show "length (nodes (snd (validateField fld err r s))) = length (nodes s)"
    by (rule validateField_length)
  show "el_id (nodes (snd (validateField fld err r s)) ! h) = el_id (nodes s ! h)" for h
    by (rule validateField_proj) simp_all
  show "(js ''visible'' \<in> classList (nodes (snd (validateField fld err r s)) ! h))
      = (js ''visible'' \<in> classList (nodes s ! h))" for h
    by (rule validateField_proj [where p = "\<lambda>x. js ''visible'' \<in> classList x"])
       (use visible_not_error in auto)
qed

lemma phase_validateFields: "phase (snd (validateFields bs acc s)) = phase s"
proof (rule phase_cong)
  show "length (nodes (snd (validateFields bs acc s))) = length (nodes s)"
    by (rule validateFields_length)
  show "el_id (nodes (snd (validateFields bs acc s)) ! h) = el_id (nodes s ! h)" for h
    by (rule validateFields_proj) simp_all
  show "(js ''visible'' \<in> classList (nodes (snd (validateFields bs acc s)) ! h))
      = (js ''visible'' \<in> classList (nodes s ! h))" for h
    by (rule validateFields_proj [where p = "\<lambda>x. js ''visible'' \<in> classList x"])
       (use visible_not_error in auto)
qed

lemma phase_same_nodes: "nodes t = nodes s \<Longrightarrow> phase t = phase s"
  by (simp add: phase_def getElementById_def split: option.splits)

lemma phase_listeners:
  "phase (snd (blurListener b s)) = phase s" "phase (snd (inputListener b s)) = phase s"
proof -
  obtain r t where v: "validateField (field b) (error b) (rules b) s = (r, t)"
    by (cases "validateField (field b) (error b) (rules b) s")
  then have "t = snd (validateField (field b) (error b) (rules b) s)" by simp
  then have "phase t = phase s" by (simp add: phase_validateField)
  with v show "phase (snd (blurListener b s)) = phase s"
    "phase (snd (inputListener b s)) = phase s"
    by (auto simp: blurListener_def inputListener_def split: sum.splits option.splits)
qed

section \<open>Submission\<close>

lemma hide_rest:
  "listeners (fold (\<lambda>h. setStyleDisplay h d) hs s) = listeners s"
  "activeElement (fold (\<lambda>h. setStyleDisplay h d) hs s) = activeElement s"
  "scrolledIntoView (fold (\<lambda>h. setStyleDisplay h d) hs s) = scrolledIntoView s"
  "console (fold (\<lambda>h. setStyleDisplay h d) hs s) = console s"
  "defaultPrevented (fold (\<lambda>h. setStyleDisplay h d) hs s) = defaultPrevented s"
  "length (nodes (fold (\<lambda>h. setStyleDisplay h d) hs s)) = length (nodes s)"
  by (induction hs arbitrary: s) (simp_all add: setStyleDisplay_def rest_updateElement)

lemma hide_proj:
  assumes "\<And>x. p (x\<lparr>styleDisplay := d\<rparr>) = p x"
  shows "p (nodes (fold (\<lambda>h. setStyleDisplay h d) hs s) ! k) = p (nodes s ! k)"
proof (induction hs arbitrary: s)
  case Nil
  show ?case by simp
next
  case (Cons h hs)
  have "p (nodes (setStyleDisplay h d s) ! k) = p (nodes s ! k)"
    unfolding setStyleDisplay_def by (rule proj_updateElement [where p = p]) (rule assms)
  with Cons.IH [of "setStyleDisplay h d s"] show ?case by simp
qed

lemma hide_other:
  "k \<notin> set hs \<Longrightarrow> nodes (fold (\<lambda>h. setStyleDisplay h d) hs s) ! k = nodes s ! k"
proof (induction hs arbitrary: s)
  case Nil
  show ?case by simp
next
  case (Cons a as)
  then have "k \<noteq> a" "k \<notin> set as" by simp_all
  with Cons.IH [of "setStyleDisplay a d s"] show ?case
    by (simp add: setStyleDisplay_def nth_updateElement_other)
qed

lemma hide_display:
  "k \<in> set hs \<Longrightarrow> k < length (nodes s) \<Longrightarrow>
   styleDisplay (nodes (fold (\<lambda>h. setStyleDisplay h d) hs s) ! k) = d"
proof (induction hs arbitrary: s)
  case Nil
  then show ?case by simp
next
  case (Cons h hs)
  let ?s = "setStyleDisplay h d s"
  have len: "k < length (nodes ?s)"
    using Cons.prems(2) by (simp add: setStyleDisplay_def rest_updateElement)
  show ?case
  proof (cases "k \<in> set hs")
    case True
    from Cons.IH [OF True len] show ?thesis by simp
  next
    case False
    with Cons.prems(1) have kh: "k = h" by simp
    from False have "nodes (fold (\<lambda>h. setStyleDisplay h d) hs ?s) ! k = nodes ?s ! k"
      by (rule hide_other)
    then show ?thesis
      using kh Cons.prems(2) by (simp add: setStyleDisplay_def nth_updateElement_same)
  qed
qed

lemma querySelectorAll_bound:
  "h \<in> set (querySelectorAll s a sel) \<Longrightarrow> h < length (nodes s)"
  by (auto simp: querySelectorAll_def descendants_def)

lemma querySelector_bound:
  "querySelector s a sel = Some h \<Longrightarrow> h < length (nodes s)"
  using querySelectorAll_bound [of h s a sel]
  by (auto simp: querySelector_def split: list.splits)

lemma querySelector_hide:
  "querySelector (fold (\<lambda>h. setStyleDisplay h d) hs s) a (HasClass c) = querySelector s a (HasClass c)"
proof (rule querySelector_cong)
  show "length (nodes (fold (\<lambda>h. setStyleDisplay h d) hs s)) = length (nodes s)"
    by (rule hide_rest)
  show "parent (nodes (fold (\<lambda>h. setStyleDisplay h d) hs s) ! k) = parent (nodes s ! k)" for k
    by (rule hide_proj) simp
  have "classList (nodes (fold (\<lambda>h. setStyleDisplay h d) hs s) ! k) = classList (nodes s ! k)" for k
    by (rule hide_proj) simp
  then show "selects (HasClass c) (nodes (fold (\<lambda>h. setStyleDisplay h d) hs s) ! k)
      = selects (HasClass c) (nodes s ! k)" for k by simp
qed

lemma showSuccessMessage_run:
  assumes "querySelector s (form E) (HasClass (js ''form__submit'')) = Some sb"
    and "successMessage E = Some m"
  shows "showSuccessMessage E s =
     (Inr (), scrollIntoView m (classListAdd m (js ''visible'')
        (setStyleDisplay sb (js ''none'')
          (fold (\<lambda>h. setStyleDisplay h (js ''none''))
             (querySelectorAll s (form E) (HasClass (js ''form__field''))) s))))"
  using assms by (simp add: showSuccessMessage_def Let_def querySelector_hide)

lemma same_nodes_query:
  "nodes t = nodes s \<Longrightarrow> querySelectorAll t a sel = querySelectorAll s a sel"
  "nodes t = nodes s \<Longrightarrow> querySelector t a sel = querySelector s a sel"
  by (simp_all add: querySelector_def querySelectorAll_def descendants_def)

lemma formData_present:
  "present E \<Longrightarrow> \<exists>d. formData E s = Inr d"
  by (auto simp: present_def formData_def fieldValue_def)

lemma validateForm_fst_bool:
  assumes "present (bindEnv s frm)"
  shows "fst (validateForm (bindEnv s frm) s) = Inr True \<or> fst (validateForm (bindEnv s frm) s) = Inr False"
  using validateFields_run [OF bindings_wf [OF assms] bindings_distinct [OF assms], of True]
  by (auto simp: validateForm_def)

lemma focusable_flag: "focusable (s\<lparr>defaultPrevented := d\<rparr>) h = focusable s h"
  by (simp add: focusable_def)

lemma handleFormSubmit_invalid:
  assumes "fst (validateForm E s) = Inr False"
  shows "handleFormSubmit E s =
     (Inr (), case querySelector (snd (validateForm E s)) (form E) (AriaInvalidIs (js ''true'')) of
                None \<Rightarrow> (snd (validateForm E s))\<lparr>defaultPrevented := True\<rparr>
              | Some h \<Rightarrow>
                  if focusable (snd (validateForm E s)) h
                  then (snd (validateForm E s))\<lparr>defaultPrevented := True, activeElement := Some h\<rparr>
                  else (snd (validateForm E s))\<lparr>defaultPrevented := True\<rparr>)"
proof -
  have q: "querySelector ((snd (validateForm E s))\<lparr>defaultPrevented := True\<rparr>) (form E) sel
         = querySelector (snd (validateForm E s)) (form E) sel" for sel
    by (rule same_nodes_query) simp
  show ?thesis
    using assms
    by (simp add: handleFormSubmit_def validateForm_flag q focus_def focusable_flag
        split: option.splits)
qed

lemma handleFormSubmit_valid:
  assumes "fst (validateForm E s) = Inr True"
    and "querySelector s (form E) (HasClass (js ''form__submit'')) = Some sb"
    and "successMessage E = Some m" and "formData E s = Inr d0"
  shows "\<exists>d. handleFormSubmit E s =
     (Inr (), consoleWrite (LogObject (js ''Form submitted successfully:'') d)
        (scrollIntoView m (classListAdd m (js ''visible'')
          (setStyleDisplay sb (js ''none'')
            (fold (\<lambda>h. setStyleDisplay h (js ''none''))
               (querySelectorAll s (form E) (HasClass (js ''form__field'')))
               ((snd (validateForm E s))\<lparr>defaultPrevented := True\<rparr>))))))"
proof -
  let ?s1 = "(snd (validateForm E s))\<lparr>defaultPrevented := True\<rparr>"
  have ne: "js ''form__submit'' \<noteq> js ''form__input--error''"
    "js ''form__field'' \<noteq> js ''form__input--error''" by (simp_all add: js_inj)
  have q1: "querySelector ?s1 (form E) (HasClass (js ''form__submit'')) = Some sb"
  proof -
    have "querySelector ?s1 (form E) (HasClass (js ''form__submit''))
        = querySelector (snd (validateForm E s)) (form E) (HasClass (js ''form__submit''))"
      by (rule same_nodes_query) simp
    also have "\<dots> = querySelector s (form E) (HasClass (js ''form__submit''))"
      unfolding validateForm_def querySelector_def
      by (simp add: querySelectorAll_validateFields [OF ne(1)])
    finally show ?thesis using assms(2) by simp
  qed
  have q2: "querySelectorAll ?s1 (form E) (HasClass (js ''form__field''))
        = querySelectorAll s (form E) (HasClass (js ''form__field''))"
  proof -
    have "querySelectorAll ?s1 (form E) (HasClass (js ''form__field''))
        = querySelectorAll (snd (validateForm E s)) (form E) (HasClass (js ''form__field''))"
      by (rule same_nodes_query) simp
    also have "\<dots> = querySelectorAll s (form E) (HasClass (js ''form__field''))"
      unfolding validateForm_def by (rule querySelectorAll_validateFields [OF ne(2)])
    finally show ?thesis .
  qed
  let ?s2 = "scrollIntoView m (classListAdd m (js ''visible'')
          (setStyleDisplay sb (js ''none'')
            (fold (\<lambda>h. setStyleDisplay h (js ''none''))
               (querySelectorAll s (form E) (HasClass (js ''form__field''))) ?s1)))"
  have ss: "showSuccessMessage E ?s1 = (Inr (), ?s2)"
    using showSuccessMessage_run [OF q1 assms(3)] by (simp add: q2)
  from assms(4) obtain d' where fd: "formData E ?s2 = Inr d'"
    by (auto simp: formData_def fieldValue_def split: option.splits sum.splits)
  show ?thesis
    using assms(1) ss fd
    by (auto simp: handleFormSubmit_def validateForm_flag)
qed

lemma bindEnv_simps:
  "form (bindEnv s frm) = frm"
  "successMessage (bindEnv s frm) = getElementById s (js ''form-success'')"
  by (simp_all add: bindEnv_def)

lemma rest_setStyleDisplay:
  "listeners (setStyleDisplay h d s) = listeners s"
  "activeElement (setStyleDisplay h d s) = activeElement s"
  "scrolledIntoView (setStyleDisplay h d s) = scrolledIntoView s"
  "console (setStyleDisplay h d s) = console s"
  "defaultPrevented (setStyleDisplay h d s) = defaultPrevented s"
  "length (nodes (setStyleDisplay h d s)) = length (nodes s)"
  by (simp_all add: setStyleDisplay_def rest_updateElement)

lemma nth_setStyleDisplay:
  "h < length (nodes s) \<Longrightarrow> styleDisplay (nodes (setStyleDisplay h d s) ! h) = d"
  "k \<noteq> h \<Longrightarrow> nodes (setStyleDisplay h d s) ! k = nodes s ! k"
  by (simp_all add: setStyleDisplay_def nth_updateElement_same nth_updateElement_other)

lemma submit_valid_state:
  assumes pres: "present (bindEnv s frm)"
    and sub: "querySelector s frm (HasClass (js ''form__submit'')) = Some sb"
    and ok: "fst (validateForm (bindEnv s frm) s) = Inr True"
    and s': "s' = snd (handleFormSubmit (bindEnv s frm) s)"
  shows "\<exists>m. getElementById s (js ''form-success'') = Some m
           \<and> js ''visible'' \<in> classList (nodes s' ! m)
           \<and> scrolledIntoView s' = scrolledIntoView s @ [m]
           \<and> styleDisplay (nodes s' ! sb) = js ''none''
           \<and> (\<forall>h \<in> set (querySelectorAll s frm (HasClass (js ''form__field''))).
                 styleDisplay (nodes s' ! h) = js ''none'')
           \<and> phase s' = Submitted \<and> defaultPrevented s' \<and> fst (handleFormSubmit (bindEnv s frm) s) = Inr ()"
proof -
  let ?E = "bindEnv s frm"
  from pres obtain m where m: "getElementById s (js ''form-success'') = Some m"
    by (auto simp: present_def bindEnv_def)
  then have sm: "successMessage ?E = Some m" by (simp add: bindEnv_simps)
  from formData_present [OF pres] obtain d0 where d0: "formData ?E s = Inr d0" by blast
  let ?s1 = "(snd (validateForm ?E s))\<lparr>defaultPrevented := True\<rparr>"
  let ?fs = "querySelectorAll s frm (HasClass (js ''form__field''))"
  let ?h = "fold (\<lambda>h. setStyleDisplay h (js ''none'')) ?fs ?s1"
  let ?x = "setStyleDisplay sb (js ''none'') ?h"
  from handleFormSubmit_valid [OF ok _ sm d0, of sb] sub obtain d where
    run: "handleFormSubmit ?E s =
      (Inr (), consoleWrite (LogObject (js ''Form submitted successfully:'') d)
         (scrollIntoView m (classListAdd m (js ''visible'') ?x)))"
    by (auto simp: bindEnv_simps)
  have nodes': "nodes s' = nodes (classListAdd m (js ''visible'') ?x)"
    and scr: "scrolledIntoView s' = scrolledIntoView ?x @ [m]"
    and dp: "defaultPrevented s' = defaultPrevented ?x"
    unfolding s' run
    by (simp_all add: consoleWrite_def scrollIntoView_def classListAdd_def rest_updateElement)
  have len1: "length (nodes (snd (validateForm ?E s))) = length (nodes s)"
    by (simp add: validateForm_def validateFields_length)
  have lenh: "length (nodes ?h) = length (nodes s)" by (simp add: hide_rest len1)
  have lenx: "length (nodes ?x) = length (nodes s)"
    by (simp only: rest_setStyleDisplay lenh)
  from getElementById_Some [OF m] have ml: "m < length (nodes s)" by simp
  from querySelector_bound [OF sub] have sbl: "sb < length (nodes s)" .
  have vis: "js ''visible'' \<in> classList (nodes s' ! m)"
    unfolding nodes' classListAdd_def using ml lenx by (simp add: nth_updateElement_same)
  have rest1: "scrolledIntoView ?s1 = scrolledIntoView s"
  proof -
    have "(snd (validateForm ?E s))\<lparr>nodes := nodes s\<rparr> = s"
      unfolding validateForm_def by (rule validateFields_rest)
    then have "scrolledIntoView ((snd (validateForm ?E s))\<lparr>nodes := nodes s\<rparr>) = scrolledIntoView s"
      by simp
    then show ?thesis by simp
  qed
  have scr': "scrolledIntoView s' = scrolledIntoView s @ [m]"
    unfolding scr by (simp add: rest_setStyleDisplay hide_rest rest1)
  have dp': "defaultPrevented s'"
    unfolding dp by (simp add: rest_setStyleDisplay hide_rest)
  have disp: "styleDisplay (nodes s' ! k) = styleDisplay (nodes ?x ! k)" for k
    unfolding nodes' classListAdd_def by (rule proj_updateElement) simp
  have dsb: "styleDisplay (nodes s' ! sb) = js ''none''"
    unfolding disp using sbl lenh by (simp add: nth_setStyleDisplay)
  have dfs: "styleDisplay (nodes s' ! h) = js ''none''" if h: "h \<in> set ?fs" for h
  proof (cases "h = sb")
    case True
    with dsb show ?thesis by simp
  next
    case False
    from querySelectorAll_bound [OF h] len1 have "h < length (nodes ?s1)" by simp
    from hide_display [OF h this] have "styleDisplay (nodes ?h ! h) = js ''none''" .
    with False show ?thesis
      unfolding disp by (simp add: nth_setStyleDisplay)
  qed
  have ev: "evolves s s'" unfolding s' by (rule evolves_handleFormSubmit)
  have ph: "phase s' = Submitted"
    using m vis by (simp add: phase_def evolves_getElementById [OF ev])
  from m vis scr' dsb dfs ph dp' run show ?thesis by simp
qed

lemma submit_invalid_state:
  assumes ok: "fst (validateForm E s) = Inr False"
    and s': "s' = snd (handleFormSubmit E s)"
  shows "nodes s' = nodes (snd (validateForm E s))" "phase s' = phase s"
    "console s' = console s" "scrolledIntoView s' = scrolledIntoView s" "listeners s' = listeners s"
    "defaultPrevented s'" "fst (handleFormSubmit E s) = Inr ()"
    "activeElement s' =
       (case querySelector (snd (validateForm E s)) (form E) (AriaInvalidIs (js ''true'')) of
          None \<Rightarrow> activeElement s
        | Some h \<Rightarrow> if focusable (snd (validateForm E s)) h then Some h else activeElement s)"
proof -
  let ?t = "snd (validateForm E s)"
  have rest: "?t\<lparr>nodes := nodes s\<rparr> = s"
    unfolding validateForm_def by (rule validateFields_rest)
  have r: "console ?t = console s" "scrolledIntoView ?t = scrolledIntoView s"
    "listeners ?t = listeners s" "activeElement ?t = activeElement s"
  proof -
    have "console (?t\<lparr>nodes := nodes s\<rparr>) = console s"
      "scrolledIntoView (?t\<lparr>nodes := nodes s\<rparr>) = scrolledIntoView s"
      "listeners (?t\<lparr>nodes := nodes s\<rparr>) = listeners s"
      "activeElement (?t\<lparr>nodes := nodes s\<rparr>) = activeElement s"
      by (simp_all only: rest)
    then show "console ?t = console s" "scrolledIntoView ?t = scrolledIntoView s"
      "listeners ?t = listeners s" "activeElement ?t = activeElement s" by simp_all
  qed
  note run = handleFormSubmit_invalid [OF ok]
  show n: "nodes s' = nodes ?t" unfolding s' run by (simp split: option.splits)
  have "phase s' = phase ?t" using n by (rule phase_same_nodes)
  then show "phase s' = phase s" by (simp add: validateForm_def phase_validateFields)
  show "console s' = console s" "scrolledIntoView s' = scrolledIntoView s"
    "listeners s' = listeners s" "defaultPrevented s'"
    unfolding s' run by (simp_all add: r split: option.splits)
  show "fst (handleFormSubmit E s) = Inr ()" unfolding run by simp
  show "activeElement s' =
       (case querySelector ?t (form E) (AriaInvalidIs (js ''true'')) of
          None \<Rightarrow> activeElement s
        | Some h \<Rightarrow> if focusable ?t h then Some h else activeElement s)"
    unfolding s' run by (simp add: r split: option.splits)
qed

lemma find_filter: "find P xs = (case filter P xs of [] \<Rightarrow> None | x # _ \<Rightarrow> Some x)"
  by (induction xs) simp_all

lemma querySelector_find:
  "querySelector s a sel
   = find (\<lambda>h. insideForm s a h \<and> selects sel (nodes s ! h)) [0..<length (nodes s)]"
  by (simp add: querySelector_def querySelectorAll_def descendants_def find_filter insideForm_def)

lemma validateField_aria_other:
  "fld \<noteq> Some h \<Longrightarrow>
   ariaInvalid (nodes (snd (validateField fld err r s)) ! h) = ariaInvalid (nodes s ! h)"
proof (cases fld)
  case None
  then show ?thesis by (simp add: validateField_None)
next
  case (Some f)
  assume "fld \<noteq> Some h"
  with Some have hf: "h \<noteq> f" by simp
  have t: "ariaInvalid (nodes (updateElement e (\<lambda>x. x\<lparr>textContent := m\<rparr>) x) ! h)
         = ariaInvalid (nodes x ! h)" for e m x
    by (rule proj_updateElement) simp
  show ?thesis
    using Some hf
    by (cases err)
       (simp_all add: validateField_Some validateField_Some_None Let_def t nth_updateElement_other)
qed

lemma validateFields_aria_other:
  "\<forall>b \<in> set bs. field b \<noteq> Some h \<Longrightarrow>
   ariaInvalid (nodes (snd (validateFields bs acc s)) ! h) = ariaInvalid (nodes s ! h)"
proof (induction bs arbitrary: acc s)
  case Nil
  show ?case by simp
next
  case (Cons b bs)
  obtain r t where step: "validateField (field b) (error b) (rules b) s = (r, t)"
    by (cases "validateField (field b) (error b) (rules b) s")
  then have t: "t = snd (validateField (field b) (error b) (rules b) s)" by simp
  from Cons.prems have "field b \<noteq> Some h" by simp
  then have v: "ariaInvalid (nodes t ! h) = ariaInvalid (nodes s ! h)"
    unfolding t by (rule validateField_aria_other)
  from Cons.prems have rest: "\<forall>b \<in> set bs. field b \<noteq> Some h" by simp
  show ?case
  proof (cases r)
    case (Inl x)
    with step v show ?thesis by simp
  next
    case (Inr ok)
    with step v Cons.IH [OF rest, where acc = "if \<not> ok then False else acc" and s = t]
    show ?thesis by simp
  qed
qed

lemma insideForm_validateForm:
  "insideForm (snd (validateForm E s)) a h = insideForm s a h"
proof -
  have len: "length (nodes (snd (validateForm E s))) = length (nodes s)"
    by (simp add: validateForm_def validateFields_length)
  have "parent (nodes (snd (validateForm E s)) ! k) = parent (nodes s ! k)" for k
    unfolding validateForm_def by (rule validateFields_proj) simp_all
  from hasAncestor_cong [of "nodes (snd (validateForm E s))" "nodes s", OF len this]
  show ?thesis by (simp add: insideForm_def len)
qed

lemma fieldHandles_mem:
  "h \<in> set (fieldHandles E) \<longleftrightarrow> (\<exists>b \<in> set (fieldValidations E). field b = Some h)"
  by (auto simp: fieldHandles_def List.map_filter_def image_iff)

lemma fieldHandles_bound:
  assumes "h \<in> set (fieldHandles (bindEnv s frm))"
  shows "h < length (nodes s)"
proof -
  from assms have "getElementById s (js ''email'') = Some h \<or> getElementById s (js ''name'') = Some h
      \<or> getElementById s (js ''role'') = Some h \<or> getElementById s (js ''experience'') = Some h
      \<or> getElementById s (js ''goal'') = Some h"
    by (auto simp: fieldHandles_mem fieldValidations_def bindEnv_def)
  then show ?thesis by (auto dest: getElementById_Some)
qed

lemma filter_sorted_unique:
  assumes "sorted_wrt (<) (hs :: nat list)"
    and "\<forall>h \<in> set hs. h < n \<and> D h"
    and "\<forall>h < n. D h \<and> M h \<longrightarrow> h \<in> set hs"
  shows "filter (\<lambda>h. D h \<and> M h) [0..<n] = filter M hs"
proof (rule sorted_distinct_set_unique)
  show "sorted (filter (\<lambda>h. D h \<and> M h) [0..<n])" by (simp add: sorted_wrt_filter)
  show "distinct (filter (\<lambda>h. D h \<and> M h) [0..<n])" by simp
  from assms(1) have sd: "sorted hs" "distinct hs" by (simp_all add: strict_sorted_iff)
  then show "sorted (filter M hs)" "distinct (filter M hs)" by (simp_all add: sorted_wrt_filter)
  show "set (filter (\<lambda>h. D h \<and> M h) [0..<n]) = set (filter M hs)"
    using assms(2,3) by auto
qed

lemma shown_cong:
  assumes "length es' = length es" "\<And>h. parent (es' ! h) = parent (es ! h)"
    and "\<And>h. styleDisplay (es' ! h) = styleDisplay (es ! h)"
  shows "shown es' k h = shown es k h"
  by (induction k arbitrary: h) (simp_all add: assms split: option.splits)

lemma focusable_validateForm:
  "focusable (snd (validateForm E s)) h = focusable s h"
proof -
  have len: "length (nodes (snd (validateForm E s))) = length (nodes s)"
    by (simp add: validateForm_def validateFields_length)
  have par: "parent (nodes (snd (validateForm E s)) ! k) = parent (nodes s ! k)" for k
    unfolding validateForm_def by (rule validateFields_proj) simp_all
  have dis: "styleDisplay (nodes (snd (validateForm E s)) ! k) = styleDisplay (nodes s ! k)" for k
    unfolding validateForm_def by (rule validateFields_proj) simp_all
  have foc: "el_focusable (nodes (snd (validateForm E s)) ! k) = el_focusable (nodes s ! k)" for k
    unfolding validateForm_def by (rule validateFields_proj) simp_all
  from shown_cong [of "nodes (snd (validateForm E s))" "nodes s", OF len par dis]
  show ?thesis by (simp add: focusable_def len foc)
qed

lemma first_marked_is_field:
  assumes "formHoldsFields s frm (bindEnv s frm)"
    and "s1 = snd (validateForm (bindEnv s frm) s)"
  shows "querySelector s1 frm (AriaInvalidIs (js ''true''))
         = find (\<lambda>h. h \<in> set (fieldHandles (bindEnv s frm)) \<and> markedInvalid s1 h)
             [0..<length (nodes s)]"
proof -
  let ?E = "bindEnv s frm"
  let ?hs = "fieldHandles ?E"
  let ?n = "length (nodes s)"
  from assms(1) have inside: "\<forall>h \<in> set ?hs. insideForm s frm h"
    and only: "\<forall>h \<in> set (filter (markedInvalid s) (descendants s frm)). h \<in> set ?hs"
    by (simp_all add: formHoldsFields_def list_all_iff)
  have len: "length (nodes s1) = ?n"
    unfolding assms(2) by (simp add: validateForm_def validateFields_length)
  have b: "h \<in> set ?hs" if h: "h < ?n" and im: "insideForm s frm h" "markedInvalid s1 h" for h
  proof (rule ccontr)
    assume nh: "h \<notin> set ?hs"
    then have "\<forall>b \<in> set (fieldValidations ?E). field b \<noteq> Some h"
      by (simp add: fieldHandles_mem)
    then have "ariaInvalid (nodes s1 ! h) = ariaInvalid (nodes s ! h)"
      unfolding assms(2) validateForm_def by (rule validateFields_aria_other)
    with im have "markedInvalid s h" by (simp add: markedInvalid_def)
    with h im have "h \<in> set (filter (markedInvalid s) (descendants s frm))"
      by (simp add: descendants_def insideForm_def)
    with only nh show False by blast
  qed
  have "querySelector s1 frm (AriaInvalidIs (js ''true''))
      = find (\<lambda>h. insideForm s frm h \<and> markedInvalid s1 h) [0..<?n]"
    unfolding querySelector_find len
    by (simp add: assms(2) insideForm_validateForm markedInvalid_def)
  also have "\<dots> = find (\<lambda>h. h \<in> set ?hs \<and> markedInvalid s1 h) [0..<?n]"
    using inside b by (intro find_cong) auto
  finally show ?thesis .
qed

lemma first_field_declared:
  assumes "sorted_wrt (<) (hs :: nat list)" and "\<forall>h \<in> set hs. h < n"
  shows "find (\<lambda>h. h \<in> set hs \<and> M h) [0..<n] = find M hs"
proof -
  have "filter (\<lambda>h. h \<in> set hs \<and> M h) [0..<n] = filter M hs"
    using assms by (intro filter_sorted_unique) auto
  then show ?thesis by (simp add: find_filter)
qed

lemma handleFormSubmit_prevents: "defaultPrevented (snd (handleFormSubmit E t))"
proof -
  let ?t0 = "t\<lparr>defaultPrevented := True\<rparr>"
  have v: "validateForm E ?t0 = (fst (validateForm E t), (snd (validateForm E t))\<lparr>defaultPrevented := True\<rparr>)"
    by (rule validateForm_flag)
  let ?t1 = "(snd (validateForm E t))\<lparr>defaultPrevented := True\<rparr>"
  have ss: "defaultPrevented (snd (showSuccessMessage E ?t1))"
    by (auto simp: showSuccessMessage_def Let_def scrollIntoView_def classListAdd_def
        rest_setStyleDisplay rest_updateElement hide_rest split: option.splits)
  obtain r2 t2 where r2: "showSuccessMessage E ?t1 = (r2, t2)" by (cases "showSuccessMessage E ?t1")
  with ss have "defaultPrevented t2" by simp
  with r2 show ?thesis
    by (auto simp: handleFormSubmit_def v focus_def consoleWrite_def split: sum.splits option.splits)
qed

section \<open>Initialisation\<close>

lemma init_without_form:
  "getElementById s (js ''waitlist-form'') = None \<Longrightarrow>
   initFormValidation s = (Inr (), s\<lparr>console := console s @ [Warn (js ''Waitlist form not found'')]\<rparr>)"
  by (simp add: initFormValidation_def consoleWrite_def)

lemma noEmail_lookup:
  "getElementById noEmailPage (js ''waitlist-form'') = Some 0"
  "getElementById noEmailPage (js ''email'') = None"
  by (simp_all add: noEmailPage_def getElementById_def sample_defs js_inj upt_rec)

lemma noEmailError_env:
  "getElementById noEmailErrorPage (js ''waitlist-form'') = Some 0"
  "bindEnv noEmailErrorPage 0 = sampleEnv\<lparr>emailError := None\<rparr>"
  by (simp_all add: noEmailErrorPage_def bindEnv_def sampleEnv_def getElementById_def sample_defs
      js_inj upt_rec)

section \<open>The claims about events, submission and initialisation\<close>

text \<open>
  C7: when the form element, a field element or an error element is absent, the engine is
  to log a warning, initialise nothing further and throw nothing. The program does so for
  the form only. On the sample document without the email control, \<open>initFormValidation\<close>
  throws a \<open>TypeError\<close> and logs nothing. Without the error element of the email
  control it completes with all eleven listeners and no warning, and the blur listener of the
  email control then throws.
\<close>

theorem init_missing_element:
  "initFormValidation noEmailPage = (Inl TypeError, noEmailPage)
   \<and> fst (initFormValidation noEmailErrorPage) = Inr ()
   \<and> console (snd (initFormValidation noEmailErrorPage)) = [Log (js ''Form validation initialized'')]
   \<and> length (listeners (snd (initFormValidation noEmailErrorPage))) = 11
   \<and> fst (blurListener \<lparr>field = Some 2, error = None, rules = emailRules\<rparr>
            (snd (initFormValidation noEmailErrorPage))) = Inl TypeError"
proof -
  have a: "initFormValidation noEmailPage = (Inl TypeError, noEmailPage)"
    by (simp add: initFormValidation_def noEmail_lookup bindEnv_def fieldValidations_def)
  have b: "initFormValidation noEmailErrorPage =
       (Inr (), consoleWrite (Log (js ''Form validation initialized''))
          (addEventListener 0 Submit (OnSubmit (sampleEnv\<lparr>emailError := None\<rparr>))
            (snd (setupRealTimeValidation (fieldValidations (sampleEnv\<lparr>emailError := None\<rparr>))
                noEmailErrorPage))))"
    by (simp add: initFormValidation_def noEmailError_env fieldValidations_def sampleEnv_def)
  have c: "console noEmailErrorPage = []" "listeners noEmailErrorPage = []"
    by (simp_all add: noEmailErrorPage_def samplePage_def)
  have d: "console (snd (initFormValidation noEmailErrorPage)) = [Log (js ''Form validation initialized'')]"
    "length (listeners (snd (initFormValidation noEmailErrorPage))) = 11"
    unfolding b
    by (simp_all add: c fieldValidations_def sampleEnv_def consoleWrite_def addEventListener_def)
  have e: "fst (blurListener \<lparr>field = Some 2, error = None, rules = emailRules\<rparr> s) = Inl TypeError" for s
    by (simp add: blurListener_def validateField_Some_None Let_def)
  from a b d e show ?thesis by simp
qed

text \<open>
  C4: the phase is a one-way machine with two states. The blur and input listeners never
  change it. From Editing, \<open>handleFormSubmit\<close> leads to Submitted exactly when
  \<open>validateForm\<close> returns true, and then every field container and the submit control
  are hidden, the success element is visible and scrolled into view. No sequence of user
  actions leads from Submitted to another phase.
\<close>

theorem phase_one_way:
  assumes "present (bindEnv s frm)"
    and "querySelector s frm (HasClass (js ''form__submit'')) = Some sb"
    and "phase s = Editing"
    and "s' = snd (handleFormSubmit (bindEnv s frm) s)"
  shows "(\<forall>b t. phase (snd (blurListener b t)) = phase t \<and> phase (snd (inputListener b t)) = phase t)
       \<and> ((phase s' = Submitted) = (fst (validateForm (bindEnv s frm) s) = Inr True))
       \<and> (fst (validateForm (bindEnv s frm) s) = Inr True \<longrightarrow>
            (\<forall>h \<in> set (querySelectorAll s frm (HasClass (js ''form__field''))).
                styleDisplay (nodes s' ! h) = js ''none'')
            \<and> styleDisplay (nodes s' ! sb) = js ''none''
            \<and> (\<exists>m. getElementById s (js ''form-success'') = Some m
                  \<and> js ''visible'' \<in> classList (nodes s' ! m)
                  \<and> scrolledIntoView s' = scrolledIntoView s @ [m]))
       \<and> (\<forall>as t. phase t = Submitted \<longrightarrow> phase (run as t) = Submitted)"
proof -
  have a: "\<forall>b t. phase (snd (blurListener b t)) = phase t \<and> phase (snd (inputListener b t)) = phase t"
    by (simp add: phase_listeners)
  have d: "\<forall>as t. phase t = Submitted \<longrightarrow> phase (run as t) = Submitted"
    using evolves_Submitted [OF evolves_run] by blast
  show ?thesis
  proof (cases "fst (validateForm (bindEnv s frm) s) = Inr True")
    case True
    from submit_valid_state [OF assms(1,2) True assms(4)] a d True show ?thesis by auto
  next
    case False
    with validateForm_fst_bool [OF assms(1)]
    have inv: "fst (validateForm (bindEnv s frm) s) = Inr False" by blast
    from submit_invalid_state(2) [OF inv assms(4)] assms(3) have "phase s' \<noteq> Submitted" by simp
    with False a d show ?thesis by simp
  qed
qed

theorem phase_one_way_witness:
  "phase (snd (handleFormSubmit sampleEnv validPage)) = Submitted
   \<and> phase (run [Type 2 [], Leave 2, SubmitForm 0] (snd (handleFormSubmit sampleEnv validPage)))
     = Submitted
   \<and> styleDisplay (nodes (snd (handleFormSubmit sampleEnv validPage)) ! 16) = js ''none''"
proof -
  have env: "bindEnv validPage 0 = sampleEnv"
    by (simp add: validPage_def sample_bindEnv_values)
  have pres: "present (bindEnv validPage 0)"
    by (simp add: env present_def sampleEnv_def)
  have sub: "querySelector validPage 0 (HasClass (js ''form__submit'')) = Some 16" by code_simp
  have ph: "phase validPage = Editing" by code_simp
  have ok: "fst (validateForm (bindEnv validPage 0) validPage) = Inr True"
    unfolding env by code_simp
  from phase_one_way [OF pres sub ph refl] ok show ?thesis
    by (simp add: env)
qed

text \<open>
  C6, amended: a submission always suppresses the default action. In a form that holds its
  fields, with the phase Editing, when \<open>validateForm\<close> returns false
  \<open>handleFormSubmit\<close> moves the focus to the first field marked invalid in document
  order, which is the first in declaration order when the document lists the fields in the
  order of their declaration. It does nothing else: the page is the one that
  \<open>validateForm\<close> left but for the focus and the suppressed default, the success element
  stays hidden and the phase stays Editing.
\<close>

theorem submit_invalid_focus:
  assumes "present (bindEnv s frm)"
    and "formHoldsFields s frm (bindEnv s frm)"
    and "phase s = Editing"
    and "fst (validateForm (bindEnv s frm) s) = Inr False"
    and "s1 = snd (validateForm (bindEnv s frm) s)"
    and "s' = snd (handleFormSubmit (bindEnv s frm) s)"
  shows "(\<forall>E t. defaultPrevented (snd (handleFormSubmit E t)))
       \<and> fst (handleFormSubmit (bindEnv s frm) s) = Inr ()
       \<and> activeElement s' =
           find (\<lambda>h. h \<in> set (fieldHandles (bindEnv s frm)) \<and> markedInvalid s1 h)
             [0..<length (nodes s)]
       \<and> activeElement s' \<noteq> None
       \<and> (sorted_wrt (<) (fieldHandles (bindEnv s frm)) \<longrightarrow>
            activeElement s' = find (markedInvalid s1) (fieldHandles (bindEnv s frm)))
       \<and> s' = s1\<lparr>defaultPrevented := True, activeElement := activeElement s'\<rparr>
       \<and> phase s' = Editing
       \<and> (\<exists>m. getElementById s' (js ''form-success'') = Some m
              \<and> js ''visible'' \<notin> classList (nodes s' ! m))"
proof -
  let ?E = "bindEnv s frm"
  let ?hs = "fieldHandles ?E"
  let ?first = "find (\<lambda>h. h \<in> set ?hs \<and> markedInvalid s1 h) [0..<length (nodes s)]"
  note inv = submit_invalid_state [OF assms(4,6)]
  have q: "querySelector s1 frm (AriaInvalidIs (js ''true'')) = ?first"
    by (rule first_marked_is_field [OF assms(2,5)])
  from validateFields_run [OF bindings_wf [OF assms(1)] bindings_distinct [OF assms(1)], of True]
  obtain t where run: "validateFields (fieldValidations ?E) True s
         = (Inr (True \<and> (\<forall>b \<in> set (fieldValidations ?E).
               fst (validateField (field b) (error b) (rules b) s) = Inr True)), t)"
    and ui: "\<forall>b \<in> set (fieldValidations ?E). \<forall>h. field b = Some h \<or> error b = Some h \<longrightarrow>
             nodes t ! h = nodes (snd (validateField (field b) (error b) (rules b) s)) ! h"
    by blast
  from run have t: "t = s1" unfolding assms(5) validateForm_def by simp
  from run assms(4) obtain b where b: "b \<in> set (fieldValidations ?E)"
    and nb: "fst (validateField (field b) (error b) (rules b) s) \<noteq> Inr True"
    by (auto simp: validateForm_def)
  from bindings_wf [OF assms(1)] b obtain f e where fe: "field b = Some f" "error b = Some e"
    by (auto simp: wfBinding_def)
  from binding_wf [OF b fe] have wf: "f < length (nodes s)" "e < length (nodes s)" "f \<noteq> e"
    by simp_all
  from nb have msg: "errorMessage (rules b) (trim (el_value (nodes s ! f))) \<noteq> []"
    by (simp add: fe validateField_fst)
  from ui b fe t have "nodes s1 ! f = nodes (snd (validateField (Some f) (Some e) (rules b) s)) ! f"
    by auto
  with msg wf have mf: "markedInvalid s1 f"
    by (simp add: markedInvalid_def validateField_nth Let_def)
  from b fe have fh: "f \<in> set ?hs" by (auto simp: fieldHandles_mem)
  from mf fh wf(1) have "?first \<noteq> None" by (auto simp: find_None_iff)
  then obtain h0 where h0: "?first = Some h0" by blast
  then have "h0 \<in> set ?hs" by (auto simp: find_Some_iff)
  with assms(2) have "focusable s h0" by (simp add: formHoldsFields_def list_all_iff)
  then have foc: "focusable s1 h0" unfolding assms(5) by (simp add: focusable_validateForm)
  have act: "activeElement s' = ?first"
    using inv(8) q h0 foc by (simp add: assms(5) bindEnv_simps)
  have some: "activeElement s' \<noteq> None" using act h0 by simp
  have same: "s' = s1\<lparr>defaultPrevented := True, activeElement := activeElement s'\<rparr>"
    unfolding act h0 unfolding assms(6) handleFormSubmit_invalid [OF assms(4)]
    using q h0 foc by (simp add: assms(5) bindEnv_simps)
  have ord: "activeElement s' = find (markedInvalid s1) ?hs" if "sorted_wrt (<) ?hs"
    unfolding act using that fieldHandles_bound by (intro first_field_declared) blast+
  have ph: "phase s' = Editing" using inv(2) assms(3) by simp
  from assms(1) obtain m where m: "getElementById s (js ''form-success'') = Some m"
    by (auto simp: present_def bindEnv_def)
  have ev: "evolves s s'" unfolding assms(6) by (rule evolves_handleFormSubmit)
  have m': "getElementById s' (js ''form-success'') = Some m"
    using m by (simp add: evolves_getElementById [OF ev])
  with ph have hid: "js ''visible'' \<notin> classList (nodes s' ! m)"
    by (auto simp: phase_def split: if_splits)
  from handleFormSubmit_prevents inv(7) act some ord same ph m' hid show ?thesis by blast
qed

theorem submit_invalid_focus_witness:
  "activeElement (snd (handleFormSubmit sampleEnv invalidEmailPage)) = Some 2
   \<and> phase (snd (handleFormSubmit sampleEnv invalidEmailPage)) = Editing
   \<and> fst (handleFormSubmit sampleEnv invalidEmailPage) = Inr ()
   \<and> defaultPrevented (snd (handleFormSubmit sampleEnv invalidEmailPage))"
proof -
  have env: "bindEnv invalidEmailPage 0 = sampleEnv"
    by (simp add: invalidEmailPage_def sample_bindEnv_values)
  have pres: "present (bindEnv invalidEmailPage 0)"
    by (simp add: env present_def sampleEnv_def)
  have inv: "fst (validateForm (bindEnv invalidEmailPage 0) invalidEmailPage) = Inr False"
    unfolding env by code_simp
  have holds: "formHoldsFields invalidEmailPage 0 (bindEnv invalidEmailPage 0)"
    unfolding env by code_simp
  have ord: "sorted_wrt (<) (fieldHandles sampleEnv)" by code_simp
  have f: "find (markedInvalid (snd (validateForm sampleEnv invalidEmailPage))) (fieldHandles sampleEnv)
           = Some 2"
    by code_simp
  have ph: "phase invalidEmailPage = Editing" by code_simp
  note main = submit_invalid_focus [OF pres holds ph inv refl refl, unfolded env]
  from main have d: "defaultPrevented (snd (handleFormSubmit sampleEnv invalidEmailPage))"
    and r: "fst (handleFormSubmit sampleEnv invalidEmailPage) = Inr ()"
    and p: "phase (snd (handleFormSubmit sampleEnv invalidEmailPage)) = Editing"
    by blast+
  from main ord
  have "activeElement (snd (handleFormSubmit sampleEnv invalidEmailPage))
        = find (markedInvalid (snd (validateForm sampleEnv invalidEmailPage))) (fieldHandles sampleEnv)"
    by blast
  with f d r p show ?thesis by simp
qed

text \<open>
  C6 as stated fails on a document that lists the name field before the email field: with
  all values empty the email field, declared first, is marked invalid, and the focus
  moves to the name field.
\<close>

theorem focus_not_in_declaration_order:
  "map field (fieldValidations (bindEnv reorderedPage 0)) = [Some 3, Some 1, Some 5, Some 7, Some 9]
   \<and> fst (validateForm (bindEnv reorderedPage 0) reorderedPage) = Inr False
   \<and> markedInvalid (snd (handleFormSubmit (bindEnv reorderedPage 0) reorderedPage)) 3
   \<and> activeElement (snd (handleFormSubmit (bindEnv reorderedPage 0) reorderedPage)) = Some 1"
  by code_simp

text \<open>
  C5, amended: the input listener validates a field exactly when the field is marked
  invalid at that moment. While a field is marked invalid an input has the effect of a
  blur, and the mark afterwards tells whether the current value is invalid; an input on a
  field that is not marked invalid leaves the page as it is. The blur listener always
  validates.
\<close>

theorem input_validates_while_marked:
  assumes "b \<in> set (fieldValidations (bindEnv s frm))"
    and "field b = Some f" and "error b = Some e"
  shows "(markedInvalid s f \<longrightarrow>
            inputListener b s = blurListener b s
            \<and> markedInvalid (snd (inputListener b s)) f
               = (fst (validateField (field b) (error b) (rules b) s) = Inr False))
       \<and> (\<not> markedInvalid s f \<longrightarrow> inputListener b s = (Inr (), s))
       \<and> blurListener b s = (Inr (), snd (validateField (field b) (error b) (rules b) s))"
proof -
  from binding_wf [OF assms]
  have wf: "f < length (nodes s)" "e < length (nodes s)" "f \<noteq> e" by simp_all
  have tf: "js ''false'' \<noteq> js ''true''" by (simp add: js_inj)
  have blur: "blurListener b s = (Inr (), snd (validateField (field b) (error b) (rules b) s))"
    by (simp add: blurListener_def assms(2,3) validateField_Some Let_def)
  have "inputListener b s = blurListener b s" if "markedInvalid s f"
    using that by (simp add: inputListener_def blurListener_def assms(2) markedInvalid_def)
  moreover have "markedInvalid (snd (inputListener b s)) f
               = (fst (validateField (field b) (error b) (rules b) s) = Inr False)"
    if "markedInvalid s f"
    using that wf tf
    by (simp add: inputListener_def assms(2,3) markedInvalid_def validateField_Some Let_def
        nodes_updateElement)
  moreover have "inputListener b s = (Inr (), s)" if "\<not> markedInvalid s f"
    using that by (simp add: inputListener_def assms(2) markedInvalid_def)
  ultimately show ?thesis using blur by blast
qed

theorem input_validates_while_marked_witness:
  "inputListener \<lparr>field = Some 2, error = Some 3, rules = emailRules\<rparr> invalidEmailPage
     = (Inr (), invalidEmailPage)
   \<and> blurListener \<lparr>field = Some 2, error = Some 3, rules = emailRules\<rparr> invalidEmailPage
     = (Inr (), snd (validateField (Some 2) (Some 3) emailRules invalidEmailPage))"
proof -
  have "\<not> markedInvalid invalidEmailPage 2" by code_simp
  with input_validates_while_marked [OF invalidEmail_member, of 2 3] show ?thesis by simp
qed

text \<open>
  C5 as stated fails after a correction: leaving the empty email field marks it invalid,
  typing \<open>a@b.co\<close> re-validates it and clears the mark, and typing \<open>a@b\<close> afterwards is
  not validated: the field stays unmarked and the error text empty although
  \<open>validateField\<close> rejects the value.
\<close>

theorem keystroke_not_revalidated:
  "markedInvalid (run [Leave 2] initialised) 2
   \<and> \<not> markedInvalid (run [Leave 2, Type 2 (js ''a@b.co''), Type 2 (js ''a@b'')] initialised) 2
   \<and> textContent (nodes (run [Leave 2, Type 2 (js ''a@b.co''), Type 2 (js ''a@b'')] initialised) ! 3) = []
   \<and> fst (validateField (Some 2) (Some 3) emailRules
        (run [Leave 2, Type 2 (js ''a@b.co''), Type 2 (js ''a@b'')] initialised)) = Inr False"
  by code_simp

end
